theory Spec2Isabelle
  imports Main
begin

text \<open>
  An anonymous chat server on socket.io: visitors are paired one to one through a waiting
  queue, text and media are relayed between partners, and reports lead to temporary bans.
  The repository holds two revisions of the server. Each is embedded as a function from a
  state and an input to the new state and the list of what the server sends:
  src/unnamed/part\_000 (sets of reporters, expiring bans, no next event) under the source's
  names, and src/server.js (a next event, maps of pending media per connection, a report
  listener that uses undeclared tables) under the same names with the suffix \<open>_sjs\<close>.
\<close>

section \<open>JavaScript values used by the server\<close>

text \<open>
  A JavaScript string is its sequence of UTF-16 code units. Connection ids, identities,
  message texts and data URLs are such strings. Event names are fixed ASCII literals of the
  source and are kept as HOL strings.
\<close>

type_synonym jsstring = "nat list"
type_synonym sid = jsstring
type_synonym event = string

definition js :: "string \<Rightarrow> jsstring" where
  "js s = map of_char s"

text \<open>An event argument sent by a client: a string, or any value whose \<open>typeof\<close> is not "string".\<close>

datatype jsval = JString jsstring | JOther

text \<open>
  \<open>if (x)\<close> on a value that is a string or \<open>undefined\<close>: the empty string and \<open>undefined\<close>
  are falsy. \<open>truthy\<close> returns the string when the test succeeds.
\<close>

definition truthy :: "jsstring option \<Rightarrow> jsstring option" where
  "truthy v = (case v of None \<Rightarrow> None | Some s \<Rightarrow> if s = [] then None else Some s)"

text \<open>\<open>String.prototype.trim\<close>: strips ECMAScript WhiteSpace and LineTerminator code units.\<close>

definition is_ws :: "nat \<Rightarrow> bool" where
  "is_ws c = (c = 9 \<or> c = 10 \<or> c = 11 \<or> c = 12 \<or> c = 13 \<or> c = 32 \<or> c = 160 \<or> c = 5760
     \<or> (8192 \<le> c \<and> c \<le> 8202) \<or> c = 8232 \<or> c = 8233 \<or> c = 8239 \<or> c = 8287
     \<or> c = 12288 \<or> c = 65279)"

definition trim :: "jsstring \<Rightarrow> jsstring" where
  "trim s = rev (dropWhile is_ws (rev (dropWhile is_ws s)))"

definition startsWith :: "jsstring \<Rightarrow> jsstring \<Rightarrow> bool" where
  "startsWith s pre = (take (length pre) s = pre)"

section \<open>What the server sends\<close>

datatype payload = NoPayload | Text jsstring | DataUrlObj jsstring

text \<open>
  \<open>Emit id ev p\<close> is \<open>socket.emit(ev, p)\<close> on the socket \<open>id\<close>, or \<open>io.to(id).emit(ev, p)\<close>;
  \<open>Disconnect id\<close> is \<open>socket.disconnect(true)\<close> on the socket \<open>id\<close>.
\<close>

datatype action = Emit sid event payload | Disconnect sid

definition emitTo :: "sid \<Rightarrow> event \<Rightarrow> payload \<Rightarrow> action list" where
  "emitTo id' ev p = (if id' = [] then [] else [Emit id' ev p])"

section \<open>The revision with expiring bans (src/unnamed/part\_000)\<close>

subsection \<open>State\<close>

record offer =
  fromSocketId :: sid
  dataUrl :: jsstring

text \<open>
  \<open>sockets\<close> holds the live sockets on which the connection handler has registered its
  listeners, each with its \<open>data.agreed\<close> flag. \<open>reportVotes\<close> maps a target identity to its
  \<open>Set\<close> of reporter identities, kept in insertion order without duplicates.
\<close>

record state =
  queue :: "sid list"
  partners :: "sid \<rightharpoonup> sid"
  identBySocket :: "sid \<rightharpoonup> jsstring"
  reportVotes :: "jsstring \<rightharpoonup> jsstring list"
  tempBans :: "jsstring \<rightharpoonup> int"
  pendingPhotos :: "sid \<rightharpoonup> offer"
  pendingVideos :: "sid \<rightharpoonup> offer"
  sockets :: "sid \<rightharpoonup> bool"

definition init :: state where
  "init = \<lparr>queue = [], partners = Map.empty, identBySocket = Map.empty,
     reportVotes = Map.empty, tempBans = Map.empty, pendingPhotos = Map.empty,
     pendingVideos = Map.empty, sockets = Map.empty\<rparr>"

record handshake =
  address :: "jsstring option"
  user_agent :: "jsstring option"

subsection \<open>Helpers\<close>

definition isAgreed :: "state \<Rightarrow> sid \<Rightarrow> bool" where
  "isAgreed st s = (sockets st s = Some True)"

definition getIP :: "handshake \<Rightarrow> jsstring" where
  "getIP hs = (case truthy (address hs) of Some a \<Rightarrow> a | None \<Rightarrow> js ''unknown'')"

definition makeIdent :: "handshake \<Rightarrow> jsstring" where
  "makeIdent hs =
     (let ip = getIP hs;
          ua = take 160 (case truthy (user_agent hs) of Some u \<Rightarrow> u | None \<Rightarrow> [])
      in ip @ js ''::'' @ ua)"

text \<open>\<open>pair\<close> and \<open>unpair\<close> mutate the \<open>partners\<close> map and nothing else.\<close>

definition pair :: "sid \<Rightarrow> sid \<Rightarrow> (sid \<rightharpoonup> sid) \<Rightarrow> (sid \<rightharpoonup> sid)" where
  "pair a b ps = (ps(a \<mapsto> b))(b \<mapsto> a)"

definition unpair :: "sid \<Rightarrow> (sid \<rightharpoonup> sid) \<Rightarrow> (sid \<rightharpoonup> sid)" where
  "unpair a ps =
     (let m = (case truthy (ps a) of Some b \<Rightarrow> ps(b := None) | None \<Rightarrow> ps)
      in m(a := None))"

definition REPORT_THRESHOLD :: nat where
  "REPORT_THRESHOLD = 10"

definition BAN_MS :: int where
  "BAN_MS = 24 * 60 * 60 * 1000"

text \<open>\<open>isTemporarilyBanned\<close> reads the clock (\<open>now\<close>) and purges an expired entry.\<close>

definition isTemporarilyBanned :: "int \<Rightarrow> jsstring \<Rightarrow> state \<Rightarrow> bool \<times> state" where
  "isTemporarilyBanned now ident st =
     (let until = (case tempBans st ident of Some u \<Rightarrow> u | None \<Rightarrow> 0)
      in if now < until then (True, st)
         else if until \<noteq> 0 then (False, st\<lparr>tempBans := (tempBans st)(ident := None)\<rparr>)
         else (False, st))"

definition requireAgree :: "sid \<Rightarrow> state \<Rightarrow> bool \<times> action list" where
  "requireAgree s st =
     (if \<not> isAgreed st s then (False, [Emit s ''need_agree'' NoPayload]) else (True, []))"

text \<open>\<open>Set.prototype.add\<close> on the insertion-ordered set.\<close>

definition set_add :: "jsstring \<Rightarrow> jsstring list \<Rightarrow> jsstring list" where
  "set_add x xs = (if x \<in> set xs then xs else xs @ [x])"

subsection \<open>The connection handler\<close>

definition on_connection :: "int \<Rightarrow> sid \<Rightarrow> handshake \<Rightarrow> state \<Rightarrow> state \<times> action list" where
  "on_connection now s hs st =
     (let ident = makeIdent hs;
          st1 = st\<lparr>identBySocket := (identBySocket st)(s \<mapsto> ident)\<rparr>;
          (isBanned, st2) = isTemporarilyBanned now ident st1
      in if isBanned then (st2, [Emit s ''banned'' NoPayload, Disconnect s])
         else (st2\<lparr>sockets := (sockets st2)(s \<mapsto> False)\<rparr>, [Emit s ''need_agree'' NoPayload]))"

definition on_agree :: "sid \<Rightarrow> state \<Rightarrow> state \<times> action list" where
  "on_agree s st = (st\<lparr>sockets := (sockets st)(s \<mapsto> True)\<rparr>, [Emit s ''agreed_ok'' NoPayload])"

subsection \<open>find\<close>

text \<open>
  The \<open>while (queue.length)\<close> loop: shifts entries off the queue until one can be paired.
  Returns the entry found, if any, and what is left of the queue.
\<close>

fun find_loop :: "sid \<Rightarrow> (sid \<rightharpoonup> sid) \<Rightarrow> sid list \<Rightarrow> sid option \<times> sid list" where
  "find_loop s ps [] = (None, [])"
| "find_loop s ps (other # rest) =
     (if other = [] then find_loop s ps rest
      else if other = s then find_loop s ps rest
      else if ps other \<noteq> None then find_loop s ps rest
      else (Some other, rest))"

definition on_find :: "sid \<Rightarrow> state \<Rightarrow> state \<times> action list" where
  "on_find s st =
     (let (ok, notice) = requireAgree s st in
      if \<not> ok then (st, notice)
      else if partners st s \<noteq> None then (st, [])
      else if s \<in> set (queue st) then (st, [])
      else (case find_loop s (partners st) (queue st) of
              (Some other, rest) \<Rightarrow>
                (st\<lparr>queue := rest, partners := pair s other (partners st)\<rparr>,
                 [Emit s ''matched'' NoPayload] @ emitTo other ''matched'' NoPayload)
            | (None, rest) \<Rightarrow>
                (st\<lparr>queue := rest @ [s]\<rparr>, [Emit s ''searching'' NoPayload])))"

subsection \<open>stop, message\<close>

text \<open>The teardown shared by stop and disconnect: unpair, notify the partner, leave the queue.\<close>

definition teardown :: "sid \<Rightarrow> state \<Rightarrow> state \<times> action list" where
  "teardown s st =
     (let (st1, out) = (case truthy (partners st s) of
                          Some p \<Rightarrow> (st\<lparr>partners := unpair s (partners st)\<rparr>,
                                     emitTo p ''partner_left'' NoPayload)
                        | None \<Rightarrow> (st, []))
      in (st1\<lparr>queue := filter (\<lambda>i. i \<noteq> s) (queue st1)\<rparr>, out))"

definition on_stop :: "sid \<Rightarrow> state \<Rightarrow> state \<times> action list" where
  "on_stop s st =
     (let (ok, notice) = requireAgree s st in
      if \<not> ok then (st, notice)
      else (let (st1, out) = teardown s st
            in (st1, out @ [Emit s ''stopped'' NoPayload])))"

definition on_message :: "sid \<Rightarrow> jsval \<Rightarrow> state \<Rightarrow> state \<times> action list" where
  "on_message s msg st =
     (let (ok, notice) = requireAgree s st in
      if \<not> ok then (st, notice)
      else (case msg of
              JOther \<Rightarrow> (st, [])
            | JString m \<Rightarrow>
                (let text = trim m in
                 if text = [] then (st, [])
                 else (case truthy (partners st s) of
                         Some p \<Rightarrow> (st, emitTo p ''message'' (Text text))
                       | None \<Rightarrow> (st, [])))))"

subsection \<open>report\<close>

definition on_report :: "int \<Rightarrow> sid \<Rightarrow> state \<Rightarrow> state \<times> action list" where
  "on_report now s st =
     (let (ok, notice) = requireAgree s st in
      if \<not> ok then (st, notice)
      else (case truthy (partners st s) of
              None \<Rightarrow> (st, [])
            | Some p \<Rightarrow>
               (case (truthy (identBySocket st p), truthy (identBySocket st s)) of
                  (Some targetIdent, Some reporterIdent) \<Rightarrow>
                    (let voters = set_add reporterIdent
                                    (case reportVotes st targetIdent of Some v \<Rightarrow> v | None \<Rightarrow> []);
                         st1 = st\<lparr>reportVotes := (reportVotes st)(targetIdent \<mapsto> voters)\<rparr>;
                         out1 = [Emit s ''report_received'' NoPayload];
                         st2 = st1\<lparr>partners := unpair s (partners st1)\<rparr>;
                         out2 = emitTo p ''partner_left'' NoPayload @ [Emit s ''partner_left'' NoPayload]
                     in if length voters \<ge> REPORT_THRESHOLD
                        then (st2\<lparr>reportVotes := (reportVotes st2)(targetIdent := None),
                                  tempBans := (tempBans st2)(targetIdent \<mapsto> now + BAN_MS)\<rparr>,
                              out1 @ out2 @ emitTo p ''reported_and_banned'' NoPayload
                                @ (if sockets st2 p \<noteq> None then [Disconnect p] else []))
                        else (st2, out1 @ out2))
                | _ \<Rightarrow> (st, []))))"

subsection \<open>Photo and video offers\<close>

definition photo_accepted :: jsstring where
  "photo_accepted = [9989, 32] @ js ''Photo accepted''"

definition photo_declined :: jsstring where
  "photo_declined = [10060, 32] @ js ''Photo declined''"

definition video_accepted :: jsstring where
  "video_accepted = [9989, 32] @ js ''Video accepted''"

definition video_declined :: jsstring where
  "video_declined = [10060, 32] @ js ''Video declined''"

definition on_photo_offer :: "sid \<Rightarrow> jsval \<Rightarrow> state \<Rightarrow> state \<times> action list" where
  "on_photo_offer s d st =
     (let (ok, notice) = requireAgree s st in
      if \<not> ok then (st, notice)
      else (case truthy (partners st s) of
              None \<Rightarrow> (st, [])
            | Some receiverId \<Rightarrow>
               (case d of
                  JOther \<Rightarrow> (st, [])
                | JString u \<Rightarrow>
                    if \<not> startsWith u (js ''data:image/'') then (st, [])
                    else (st\<lparr>pendingPhotos := (pendingPhotos st)
                                (receiverId \<mapsto> \<lparr>fromSocketId = s, dataUrl = u\<rparr>)\<rparr>,
                          emitTo receiverId ''photo_request'' NoPayload
                            @ [Emit s ''photo_sent'' NoPayload]))))"

definition on_photo_accept :: "sid \<Rightarrow> state \<Rightarrow> state \<times> action list" where
  "on_photo_accept s st =
     (let (ok, notice) = requireAgree s st in
      if \<not> ok then (st, notice)
      else (case pendingPhotos st s of
              None \<Rightarrow> (st, [])
            | Some req \<Rightarrow>
                (st\<lparr>pendingPhotos := (pendingPhotos st)(s := None)\<rparr>,
                 [Emit s ''photo_deliver'' (DataUrlObj (dataUrl req))]
                   @ emitTo (fromSocketId req) ''message'' (Text photo_accepted))))"

definition on_photo_decline :: "sid \<Rightarrow> state \<Rightarrow> state \<times> action list" where
  "on_photo_decline s st =
     (let (ok, notice) = requireAgree s st in
      if \<not> ok then (st, notice)
      else (case pendingPhotos st s of
              None \<Rightarrow> (st, [])
            | Some req \<Rightarrow>
                (st\<lparr>pendingPhotos := (pendingPhotos st)(s := None)\<rparr>,
                 emitTo (fromSocketId req) ''message'' (Text photo_declined))))"

definition on_video_offer :: "sid \<Rightarrow> jsval \<Rightarrow> state \<Rightarrow> state \<times> action list" where
  "on_video_offer s d st =
     (let (ok, notice) = requireAgree s st in
      if \<not> ok then (st, notice)
      else (case truthy (partners st s) of
              None \<Rightarrow> (st, [])
            | Some receiverId \<Rightarrow>
               (case d of
                  JOther \<Rightarrow> (st, [])
                | JString u \<Rightarrow>
                    if \<not> startsWith u (js ''data:video/'') then (st, [])
                    else (st\<lparr>pendingVideos := (pendingVideos st)
                                (receiverId \<mapsto> \<lparr>fromSocketId = s, dataUrl = u\<rparr>)\<rparr>,
                          emitTo receiverId ''video_request'' NoPayload
                            @ [Emit s ''video_sent'' NoPayload]))))"

definition on_video_accept :: "sid \<Rightarrow> state \<Rightarrow> state \<times> action list" where
  "on_video_accept s st =
     (let (ok, notice) = requireAgree s st in
      if \<not> ok then (st, notice)
      else (case pendingVideos st s of
              None \<Rightarrow> (st, [])
            | Some req \<Rightarrow>
                (st\<lparr>pendingVideos := (pendingVideos st)(s := None)\<rparr>,
                 [Emit s ''video_deliver'' (DataUrlObj (dataUrl req))]
                   @ emitTo (fromSocketId req) ''message'' (Text video_accepted))))"

definition on_video_decline :: "sid \<Rightarrow> state \<Rightarrow> state \<times> action list" where
  "on_video_decline s st =
     (let (ok, notice) = requireAgree s st in
      if \<not> ok then (st, notice)
      else (case pendingVideos st s of
              None \<Rightarrow> (st, [])
            | Some req \<Rightarrow>
                (st\<lparr>pendingVideos := (pendingVideos st)(s := None)\<rparr>,
                 emitTo (fromSocketId req) ''message'' (Text video_declined))))"

subsection \<open>disconnect\<close>

definition on_disconnect :: "sid \<Rightarrow> state \<Rightarrow> state \<times> action list" where
  "on_disconnect s st =
     (let (st1, out) = teardown s st
      in (st1\<lparr>pendingPhotos := (pendingPhotos st1)(s := None),
              pendingVideos := (pendingVideos st1)(s := None),
              identBySocket := (identBySocket st1)(s := None)\<rparr>, out))"

subsection \<open>Dispatch\<close>

text \<open>
  The transport delivers a client event to the listener the connection handler registered on
  that socket; a socket without listeners (never connected, refused as banned, or gone)
  handles nothing. Each input carries the clock reading \<open>Date.now()\<close> at its handling. After
  the disconnect listener has run, the socket is no longer among the live sockets. When the
  server closes a socket itself (the action \<open>Disconnect\<close>), the transport fires that socket's
  disconnect listener: this is the input \<open>Disconnected\<close> of that socket.
\<close>

datatype client_event =
    Agree | Find | Stop | Message jsval | Report
  | PhotoOffer jsval | PhotoAccept | PhotoDecline
  | VideoOffer jsval | VideoAccept | VideoDecline

datatype input = Connection sid handshake | Client sid client_event | Disconnected sid

fun handle :: "int \<Rightarrow> sid \<Rightarrow> client_event \<Rightarrow> state \<Rightarrow> state \<times> action list" where
  "handle now s Agree st = on_agree s st"
| "handle now s Find st = on_find s st"
| "handle now s Stop st = on_stop s st"
| "handle now s (Message m) st = on_message s m st"
| "handle now s Report st = on_report now s st"
| "handle now s (PhotoOffer d) st = on_photo_offer s d st"
| "handle now s PhotoAccept st = on_photo_accept s st"
| "handle now s PhotoDecline st = on_photo_decline s st"
| "handle now s (VideoOffer d) st = on_video_offer s d st"
| "handle now s VideoAccept st = on_video_accept s st"
| "handle now s VideoDecline st = on_video_decline s st"

fun step :: "int \<times> input \<Rightarrow> state \<Rightarrow> state \<times> action list" where
  "step (now, Connection s hs) st = on_connection now s hs st"
| "step (now, Client s e) st = (if sockets st s = None then (st, []) else handle now s e st)"
| "step (now, Disconnected s) st =
     (if sockets st s = None then (st, [])
      else (let (st1, out) = on_disconnect s st
            in (st1\<lparr>sockets := (sockets st1)(s := None)\<rparr>, out)))"

fun run :: "(int \<times> input) list \<Rightarrow> state \<Rightarrow> state" where
  "run [] st = st"
| "run (i # is) st = run is (fst (step i st))"

section \<open>The revision with the next event (src/server.js)\<close>

subsection \<open>State\<close>

text \<open>
  In this file the connection handler declares \<open>const pendingPhotos\<close> and
  \<open>const pendingVideos\<close> in its own body, so every connection has maps of its own, which
  shadow the module-level ones in all its listeners; the module-level maps are never read or
  written. \<open>reportCounts\<close> and \<open>tempBans\<close> are used by the report listener but declared
  nowhere: evaluating them throws a ReferenceError.
\<close>

record conn_sjs =
  agreed_sjs :: bool
  pendingPhotos_sjs :: "sid \<rightharpoonup> offer"
  pendingVideos_sjs :: "sid \<rightharpoonup> offer"

record state_sjs =
  queue_sjs :: "sid list"
  partners_sjs :: "sid \<rightharpoonup> sid"
  identBySocket_sjs :: "sid \<rightharpoonup> jsstring"
  bannedIdents :: "jsstring set"
  sockets_sjs :: "sid \<rightharpoonup> conn_sjs"

datatype error = ReferenceError string

definition init_sjs :: state_sjs where
  "init_sjs = \<lparr>queue_sjs = [], partners_sjs = Map.empty, identBySocket_sjs = Map.empty,
     bannedIdents = {}, sockets_sjs = Map.empty\<rparr>"

definition isAgreed_sjs :: "state_sjs \<Rightarrow> sid \<Rightarrow> bool" where
  "isAgreed_sjs st s = (case sockets_sjs st s of Some c \<Rightarrow> agreed_sjs c | None \<Rightarrow> False)"

definition requireAgree_sjs :: "sid \<Rightarrow> state_sjs \<Rightarrow> bool \<times> action list" where
  "requireAgree_sjs s st =
     (if \<not> isAgreed_sjs st s then (False, [Emit s ''need_agree'' NoPayload]) else (True, []))"

text \<open>Updating the record of the socket \<open>s\<close>; listeners only run on a live socket.\<close>

definition upd_conn :: "sid \<Rightarrow> (conn_sjs \<Rightarrow> conn_sjs) \<Rightarrow> state_sjs \<Rightarrow> state_sjs" where
  "upd_conn s f st =
     (case sockets_sjs st s of
        None \<Rightarrow> st
      | Some c \<Rightarrow> st\<lparr>sockets_sjs := (sockets_sjs st)(s \<mapsto> f c)\<rparr>)"

definition own_photos :: "state_sjs \<Rightarrow> sid \<Rightarrow> (sid \<rightharpoonup> offer)" where
  "own_photos st s = (case sockets_sjs st s of Some c \<Rightarrow> pendingPhotos_sjs c | None \<Rightarrow> Map.empty)"

definition own_videos :: "state_sjs \<Rightarrow> sid \<Rightarrow> (sid \<rightharpoonup> offer)" where
  "own_videos st s = (case sockets_sjs st s of Some c \<Rightarrow> pendingVideos_sjs c | None \<Rightarrow> Map.empty)"

subsection \<open>Listeners\<close>

definition on_connection_sjs :: "sid \<Rightarrow> handshake \<Rightarrow> state_sjs \<Rightarrow> state_sjs \<times> action list" where
  "on_connection_sjs s hs st =
     (let ident = makeIdent hs;
          st1 = st\<lparr>identBySocket_sjs := (identBySocket_sjs st)(s \<mapsto> ident)\<rparr>
      in if ident \<in> bannedIdents st1 then (st1, [Emit s ''banned'' NoPayload, Disconnect s])
         else (st1\<lparr>sockets_sjs := (sockets_sjs st1)
                  (s \<mapsto> \<lparr>agreed_sjs = False, pendingPhotos_sjs = Map.empty,
                          pendingVideos_sjs = Map.empty\<rparr>)\<rparr>,
               [Emit s ''need_agree'' NoPayload]))"

definition on_agree_sjs :: "sid \<Rightarrow> state_sjs \<Rightarrow> state_sjs \<times> action list" where
  "on_agree_sjs s st = (upd_conn s (\<lambda>c. c\<lparr>agreed_sjs := True\<rparr>) st, [Emit s ''agreed_ok'' NoPayload])"

fun find_loop_sjs :: "sid \<Rightarrow> (sid \<rightharpoonup> sid) \<Rightarrow> sid list \<Rightarrow> sid option \<times> sid list" where
  "find_loop_sjs s ps [] = (None, [])"
| "find_loop_sjs s ps (other # rest) =
     (if other \<noteq> s \<and> ps other = None then (Some other, rest)
      else find_loop_sjs s ps rest)"

definition on_find_sjs :: "sid \<Rightarrow> state_sjs \<Rightarrow> state_sjs \<times> action list" where
  "on_find_sjs s st =
     (let (ok, notice) = requireAgree_sjs s st in
      if \<not> ok then (st, notice)
      else if partners_sjs st s \<noteq> None \<or> s \<in> set (queue_sjs st) then (st, [])
      else (case find_loop_sjs s (partners_sjs st) (queue_sjs st) of
              (Some other, rest) \<Rightarrow>
                (st\<lparr>queue_sjs := rest, partners_sjs := pair s other (partners_sjs st)\<rparr>,
                 [Emit s ''matched'' NoPayload, Emit other ''matched'' NoPayload])
            | (None, rest) \<Rightarrow>
                (st\<lparr>queue_sjs := rest @ [s]\<rparr>, [Emit s ''searching'' NoPayload])))"

definition teardown_sjs :: "sid \<Rightarrow> state_sjs \<Rightarrow> state_sjs \<times> action list" where
  "teardown_sjs s st =
     (let (st1, out) = (case truthy (partners_sjs st s) of
                          Some p \<Rightarrow> (st\<lparr>partners_sjs := unpair s (partners_sjs st)\<rparr>,
                                     [Emit p ''partner_left'' NoPayload])
                        | None \<Rightarrow> (st, []))
      in (st1\<lparr>queue_sjs := filter (\<lambda>i. i \<noteq> s) (queue_sjs st1)\<rparr>, out))"

definition on_next_sjs :: "sid \<Rightarrow> state_sjs \<Rightarrow> state_sjs \<times> action list" where
  "on_next_sjs s st =
     (let (ok, notice) = requireAgree_sjs s st in
      if \<not> ok then (st, notice)
      else (let (st1, out) = teardown_sjs s st
            in (st1, out @ [Emit s ''searching'' NoPayload, Emit s ''find'' NoPayload])))"

definition on_stop_sjs :: "sid \<Rightarrow> state_sjs \<Rightarrow> state_sjs \<times> action list" where
  "on_stop_sjs s st =
     (let (ok, notice) = requireAgree_sjs s st in
      if \<not> ok then (st, notice)
      else (let (st1, out) = teardown_sjs s st
            in (st1, out @ [Emit s ''stopped'' NoPayload])))"

definition on_message_sjs :: "sid \<Rightarrow> jsval \<Rightarrow> state_sjs \<Rightarrow> state_sjs \<times> action list" where
  "on_message_sjs s msg st =
     (let (ok, notice) = requireAgree_sjs s st in
      if \<not> ok then (st, notice)
      else (case msg of
              JOther \<Rightarrow> (st, [])
            | JString m \<Rightarrow>
                (let text = trim m in
                 if text = [] then (st, [])
                 else (case truthy (partners_sjs st s) of
                         Some p \<Rightarrow> (st, [Emit p ''message'' (Text text)])
                       | None \<Rightarrow> (st, [])))))"

text \<open>
  The report listener stops at its first use of \<open>reportCounts\<close>: nothing has been written
  by then.
\<close>

definition on_report_sjs :: "sid \<Rightarrow> state_sjs \<Rightarrow> error + state_sjs \<times> action list" where
  "on_report_sjs s st =
     (let (ok, notice) = requireAgree_sjs s st in
      if \<not> ok then Inr (st, notice)
      else (case truthy (partners_sjs st s) of
              None \<Rightarrow> Inr (st, [])
            | Some p \<Rightarrow>
               (case truthy (identBySocket_sjs st p) of
                  None \<Rightarrow> Inr (st, [])
                | Some partnerIdent \<Rightarrow> Inl (ReferenceError ''reportCounts''))))"

definition on_photo_offer_sjs :: "sid \<Rightarrow> jsval \<Rightarrow> state_sjs \<Rightarrow> state_sjs \<times> action list" where
  "on_photo_offer_sjs s d st =
     (let (ok, notice) = requireAgree_sjs s st in
      if \<not> ok then (st, notice)
      else (case truthy (partners_sjs st s) of
              None \<Rightarrow> (st, [])
            | Some p \<Rightarrow>
               (case d of
                  JOther \<Rightarrow> (st, [])
                | JString u \<Rightarrow>
                    if \<not> startsWith u (js ''data:image/'') then (st, [])
                    else (upd_conn s (\<lambda>c. c\<lparr>pendingPhotos_sjs := (pendingPhotos_sjs c)
                                       (p \<mapsto> \<lparr>fromSocketId = s, dataUrl = u\<rparr>)\<rparr>) st,
                          [Emit p ''photo_request'' NoPayload, Emit s ''photo_sent'' NoPayload]))))"

definition on_photo_accept_sjs :: "sid \<Rightarrow> state_sjs \<Rightarrow> state_sjs \<times> action list" where
  "on_photo_accept_sjs s st =
     (let (ok, notice) = requireAgree_sjs s st in
      if \<not> ok then (st, notice)
      else (case own_photos st s s of
              None \<Rightarrow> (st, [])
            | Some req \<Rightarrow>
                (upd_conn s (\<lambda>c. c\<lparr>pendingPhotos_sjs := (pendingPhotos_sjs c)(s := None)\<rparr>) st,
                 [Emit s ''photo_deliver'' (Text (dataUrl req))])))"

definition on_photo_decline_sjs :: "sid \<Rightarrow> state_sjs \<Rightarrow> state_sjs \<times> action list" where
  "on_photo_decline_sjs s st =
     (let (ok, notice) = requireAgree_sjs s st in
      if \<not> ok then (st, notice)
      else (case own_photos st s s of
              None \<Rightarrow> (st, [])
            | Some req \<Rightarrow>
                (upd_conn s (\<lambda>c. c\<lparr>pendingPhotos_sjs := (pendingPhotos_sjs c)(s := None)\<rparr>) st,
                 [Emit s ''stopped'' NoPayload])))"

text \<open>
  The file registers two listeners for each video event; both run, in the order of
  registration. \<open>video_offer1\<close>, \<open>video_accept1\<close>, \<open>video_decline1\<close> are the first ones,
  \<open>video_offer2\<close>, \<open>video_accept2\<close>, \<open>video_decline2\<close> the second ones.
\<close>

definition video_offer1 :: "sid \<Rightarrow> jsval \<Rightarrow> state_sjs \<Rightarrow> state_sjs \<times> action list" where
  "video_offer1 s d st =
     (let (ok, notice) = requireAgree_sjs s st in
      if \<not> ok then (st, notice)
      else (case truthy (partners_sjs st s) of
              None \<Rightarrow> (st, [])
            | Some p \<Rightarrow>
               (case d of
                  JOther \<Rightarrow> (st, [])
                | JString u \<Rightarrow>
                    if \<not> startsWith u (js ''data:video/'') then (st, [])
                    else (upd_conn s (\<lambda>c. c\<lparr>pendingVideos_sjs := (pendingVideos_sjs c)
                                       (p \<mapsto> \<lparr>fromSocketId = s, dataUrl = u\<rparr>)\<rparr>) st,
                          [Emit p ''video_request'' NoPayload, Emit s ''video_sent'' NoPayload]))))"

definition video_offer2 :: "sid \<Rightarrow> jsval \<Rightarrow> state_sjs \<Rightarrow> state_sjs \<times> action list" where
  "video_offer2 = video_offer1"

definition video_accept1 :: "sid \<Rightarrow> state_sjs \<Rightarrow> state_sjs \<times> action list" where
  "video_accept1 s st =
     (let (ok, notice) = requireAgree_sjs s st in
      if \<not> ok then (st, notice)
      else (case own_videos st s s of
              None \<Rightarrow> (st, [])
            | Some req \<Rightarrow>
                (upd_conn s (\<lambda>c. c\<lparr>pendingVideos_sjs := (pendingVideos_sjs c)(s := None)\<rparr>) st,
                 [Emit s ''video_deliver'' (Text (dataUrl req))])))"

definition video_accept2 :: "sid \<Rightarrow> state_sjs \<Rightarrow> state_sjs \<times> action list" where
  "video_accept2 s st =
     (let (ok, notice) = requireAgree_sjs s st in
      if \<not> ok then (st, notice)
      else (case own_videos st s s of
              None \<Rightarrow> (st, [])
            | Some req \<Rightarrow>
                (upd_conn s (\<lambda>c. c\<lparr>pendingVideos_sjs := (pendingVideos_sjs c)(s := None)\<rparr>) st,
                 [Emit s ''video_receive'' (Text (dataUrl req))])))"

definition video_decline1 :: "sid \<Rightarrow> state_sjs \<Rightarrow> state_sjs \<times> action list" where
  "video_decline1 s st =
     (let (ok, notice) = requireAgree_sjs s st in
      if \<not> ok then (st, notice)
      else (case own_videos st s s of
              None \<Rightarrow> (st, [])
            | Some req \<Rightarrow>
                (upd_conn s (\<lambda>c. c\<lparr>pendingVideos_sjs := (pendingVideos_sjs c)(s := None)\<rparr>) st,
                 [Emit s ''stopped'' NoPayload])))"

definition video_decline2 :: "sid \<Rightarrow> state_sjs \<Rightarrow> state_sjs \<times> action list" where
  "video_decline2 s st =
     (let (ok, notice) = requireAgree_sjs s st in
      if \<not> ok then (st, notice)
      else (upd_conn s (\<lambda>c. c\<lparr>pendingVideos_sjs := (pendingVideos_sjs c)(s := None)\<rparr>) st, []))"

definition both :: "(state_sjs \<Rightarrow> state_sjs \<times> action list) \<Rightarrow> (state_sjs \<Rightarrow> state_sjs \<times> action list)
    \<Rightarrow> state_sjs \<Rightarrow> state_sjs \<times> action list" where
  "both f g st = (let (st1, out1) = f st; (st2, out2) = g st1 in (st2, out1 @ out2))"

definition on_disconnect_sjs :: "sid \<Rightarrow> state_sjs \<Rightarrow> state_sjs \<times> action list" where
  "on_disconnect_sjs s st =
     (let (st1, out) = teardown_sjs s st;
          st2 = upd_conn s (\<lambda>c. c\<lparr>pendingPhotos_sjs := (pendingPhotos_sjs c)(s := None),
                                 pendingVideos_sjs := (pendingVideos_sjs c)(s := None)\<rparr>) st1
      in (st2\<lparr>identBySocket_sjs := (identBySocket_sjs st2)(s := None)\<rparr>, out))"

subsection \<open>Dispatch\<close>

datatype client_event_sjs =
    Agree_sjs | Find_sjs | Next_sjs | Stop_sjs | Message_sjs jsval | Report_sjs
  | PhotoOffer_sjs jsval | PhotoAccept_sjs | PhotoDecline_sjs
  | VideoOffer_sjs jsval | VideoAccept_sjs | VideoDecline_sjs

datatype input_sjs =
    Connection_sjs sid handshake | Client_sjs sid client_event_sjs | Disconnected_sjs sid

fun handle_sjs :: "sid \<Rightarrow> client_event_sjs \<Rightarrow> state_sjs \<Rightarrow> error + state_sjs \<times> action list" where
  "handle_sjs s Agree_sjs st = Inr (on_agree_sjs s st)"
| "handle_sjs s Find_sjs st = Inr (on_find_sjs s st)"
| "handle_sjs s Next_sjs st = Inr (on_next_sjs s st)"
| "handle_sjs s Stop_sjs st = Inr (on_stop_sjs s st)"
| "handle_sjs s (Message_sjs m) st = Inr (on_message_sjs s m st)"
| "handle_sjs s Report_sjs st = on_report_sjs s st"
| "handle_sjs s (PhotoOffer_sjs d) st = Inr (on_photo_offer_sjs s d st)"
| "handle_sjs s PhotoAccept_sjs st = Inr (on_photo_accept_sjs s st)"
| "handle_sjs s PhotoDecline_sjs st = Inr (on_photo_decline_sjs s st)"
| "handle_sjs s (VideoOffer_sjs d) st = Inr (both (video_offer1 s d) (video_offer2 s d) st)"
| "handle_sjs s VideoAccept_sjs st = Inr (both (video_accept1 s) (video_accept2 s) st)"
| "handle_sjs s VideoDecline_sjs st = Inr (both (video_decline1 s) (video_decline2 s) st)"

fun step_sjs :: "input_sjs \<Rightarrow> state_sjs \<Rightarrow> error + state_sjs \<times> action list" where
  "step_sjs (Connection_sjs s hs) st = Inr (on_connection_sjs s hs st)"
| "step_sjs (Client_sjs s e) st =
     (if sockets_sjs st s = None then Inr (st, []) else handle_sjs s e st)"
| "step_sjs (Disconnected_sjs s) st =
     (if sockets_sjs st s = None then Inr (st, [])
      else (let (st1, out) = on_disconnect_sjs s st
            in Inr (st1\<lparr>sockets_sjs := (sockets_sjs st1)(s := None)\<rparr>, out)))"

text \<open>A run stops at the first uncaught error.\<close>

fun run_sjs :: "input_sjs list \<Rightarrow> state_sjs \<Rightarrow> error + state_sjs" where
  "run_sjs [] st = Inr st"
| "run_sjs (i # is) st =
     (case step_sjs i st of Inl e \<Rightarrow> Inl e | Inr (st1, out) \<Rightarrow> run_sjs is st1)"

section \<open>Properties of the registry and the queue\<close>

text \<open>
  The partner registry holds pairs in both directions, nobody is their own partner, the queue
  has no duplicates, and nobody queued is paired.
\<close>

definition registry_ok :: "(sid \<rightharpoonup> sid) \<Rightarrow> sid list \<Rightarrow> bool" where
  "registry_ok ps q =
     ((\<forall>x y. ps x = Some y \<longrightarrow> ps y = Some x \<and> x \<noteq> y) \<and> distinct q \<and> (\<forall>x \<in> set q. ps x = None))"

text \<open>
  The queue from its first available entry on: entries that are \<open>s\<close> itself or already
  paired are dropped from the front.
\<close>

definition first_available :: "sid \<Rightarrow> (sid \<rightharpoonup> sid) \<Rightarrow> sid list \<Rightarrow> sid list" where
  "first_available s ps q = dropWhile (\<lambda>other. other = s \<or> ps other \<noteq> None) q"

text \<open>
  The transport gives every connection a non-empty id. \<open>ids_ok\<close> says so of a sequence of
  inputs; \<open>state_ok\<close> collects what then holds of every state reached in part\_000: the
  registry and queue are consistent, everybody paired or queued is a live socket, every live
  socket has an identity registered, and no id or identity is empty.
\<close>

definition ids_ok :: "(int \<times> input) list \<Rightarrow> bool" where
  "ids_ok evs = (\<forall>e \<in> set evs. \<forall>s hs. snd e = Connection s hs \<longrightarrow> s \<noteq> [])"

definition state_ok :: "state \<Rightarrow> bool" where
  "state_ok st = (registry_ok (partners st) (queue st)
     \<and> dom (partners st) \<subseteq> dom (sockets st) \<and> set (queue st) \<subseteq> dom (sockets st)
     \<and> dom (sockets st) \<subseteq> dom (identBySocket st) \<and> [] \<notin> dom (sockets st)
     \<and> (\<forall>s i. identBySocket st s = Some i \<longrightarrow> i \<noteq> []))"

text \<open>A tally lists each reporter identity once and stays below the threshold.\<close>

definition tally_ok :: "state \<Rightarrow> bool" where
  "tally_ok st = (\<forall>ti v. reportVotes st ti = Some v \<longrightarrow> distinct v \<and> length v < REPORT_THRESHOLD)"

subsection \<open>Sample runs\<close>

definition hs0 :: handshake where
  "hs0 = \<lparr>address = Some (js ''10.0.0.1''), user_agent = Some (js ''UA'')\<rparr>"

definition connect_agree :: "sid \<Rightarrow> (int \<times> input) list" where
  "connect_agree s = [(0, Connection s hs0), (0, Client s Agree)]"

definition connect_agree_sjs :: "sid \<Rightarrow> input_sjs list" where
  "connect_agree_sjs s = [Connection_sjs s hs0, Client_sjs s Agree_sjs]"

text \<open>A is queued; B has connected and agreed.\<close>

definition waiting_run :: "(int \<times> input) list" where
  "waiting_run = connect_agree (js ''A'') @ connect_agree (js ''B'') @ [(0, Client (js ''A'') Find)]"

definition waiting :: state where
  "waiting = run waiting_run init"

text \<open>A and B are paired.\<close>

definition chatting_run :: "(int \<times> input) list" where
  "chatting_run = waiting_run @ [(0, Client (js ''B'') Find)]"

definition chatting :: state where
  "chatting = run chatting_run init"

text \<open>A and B are paired and C is queued.\<close>

definition chatting3_run :: "(int \<times> input) list" where
  "chatting3_run = chatting_run @ connect_agree (js ''C'') @ [(0, Client (js ''C'') Find)]"

definition chatting3 :: state where
  "chatting3 = run chatting3_run init"

text \<open>A and B are paired and A has offered B a photo.\<close>

definition png :: jsstring where
  "png = js ''data:image/png;base64,AAAA''"

definition png2 :: jsstring where
  "png2 = js ''data:image/png;base64,BBBB''"

definition mp4 :: jsstring where
  "mp4 = js ''data:video/mp4;base64,AAAA''"

definition mp42 :: jsstring where
  "mp42 = js ''data:video/mp4;base64,BBBB''"

definition offered_run :: "(int \<times> input) list" where
  "offered_run = chatting_run @ [(0, Client (js ''A'') (PhotoOffer (JString png)))]"

definition offered :: state where
  "offered = run offered_run init"

text \<open>
  Reports against one target, T, whose identity is that of \<open>hs0\<close>. In each round a
  reporter with an identity of its own connects, agrees, is paired with T and reports T when
  the clock reads 1000. \<open>nine\<close> is the state after nine rounds, \<open>again\<close> the state after the
  first reporter has then been paired with T and has reported T once more, \<open>ten\<close> the state
  after a tenth round.
\<close>

definition hs_of :: "string \<Rightarrow> handshake" where
  "hs_of n = \<lparr>address = Some (js (''10.0.1.'' @ n)), user_agent = Some (js ''UA'')\<rparr>"

definition report_round :: "string \<Rightarrow> (int \<times> input) list" where
  "report_round n =
     [(0, Connection (js (''R'' @ n)) (hs_of n)), (0, Client (js (''R'' @ n)) Agree),
      (0, Client (js ''T'') Find), (0, Client (js (''R'' @ n)) Find),
      (1000, Client (js (''R'' @ n)) Report)]"

definition first_nine :: "string list" where
  "first_nine = [''ann'', ''bob'', ''cat'', ''dan'', ''eve'', ''fay'', ''gus'', ''hal'', ''ivy'']"

definition nine_run :: "(int \<times> input) list" where
  "nine_run = connect_agree (js ''T'')
     @ concat (map report_round first_nine)"

definition nine :: state where
  "nine = run nine_run init"

definition again_run :: "(int \<times> input) list" where
  "again_run = nine_run @ [(0, Client (js ''T'') Find), (0, Client (js ''Rann'') Find),
     (1000, Client (js ''Rann'') Report)]"

definition again :: state where
  "again = run again_run init"

definition ten_run :: "(int \<times> input) list" where
  "ten_run = nine_run @ report_round ''jon''"

definition ten :: state where
  "ten = run ten_run init"

text \<open>The same runs in server.js, and the states they reach.\<close>

definition waiting_sjs_run :: "input_sjs list" where
  "waiting_sjs_run =
     connect_agree_sjs (js ''A'') @ connect_agree_sjs (js ''B'') @ [Client_sjs (js ''A'') Find_sjs]"

definition chatting_sjs_run :: "input_sjs list" where
  "chatting_sjs_run = waiting_sjs_run @ [Client_sjs (js ''B'') Find_sjs]"

definition conn0 :: conn_sjs where
  "conn0 = \<lparr>agreed_sjs = True, pendingPhotos_sjs = Map.empty, pendingVideos_sjs = Map.empty\<rparr>"

definition waiting_sjs :: state_sjs where
  "waiting_sjs = \<lparr>queue_sjs = [js ''A''], partners_sjs = Map.empty,
     identBySocket_sjs = [js ''A'' \<mapsto> makeIdent hs0, js ''B'' \<mapsto> makeIdent hs0],
     bannedIdents = {}, sockets_sjs = [js ''A'' \<mapsto> conn0, js ''B'' \<mapsto> conn0]\<rparr>"

definition chatting_sjs :: state_sjs where
  "chatting_sjs = waiting_sjs\<lparr>queue_sjs := [],
     partners_sjs := [js ''B'' \<mapsto> js ''A'', js ''A'' \<mapsto> js ''B'']\<rparr>"

section \<open>The registry invariant\<close>

lemma find_loop_None: "find_loop s ps q = (None, rest) \<Longrightarrow> rest = []"
  by (induction q) (auto split: if_splits)

lemma find_loop_Some:
  "find_loop s ps q = (Some other, rest) \<Longrightarrow>
     other \<in> set q \<and> other \<noteq> s \<and> ps other = None \<and> set rest \<subseteq> set q \<and> (distinct q \<longrightarrow> distinct rest \<and> other \<notin> set rest)"
  by (induction q) (auto split: if_splits)

lemma find_loop_sjs_None: "find_loop_sjs s ps q = (None, rest) \<Longrightarrow> rest = []"
  by (induction q) (auto split: if_splits)

lemma find_loop_sjs_Some:
  "find_loop_sjs s ps q = (Some other, rest) \<Longrightarrow>
     other \<in> set q \<and> other \<noteq> s \<and> ps other = None \<and> set rest \<subseteq> set q \<and> (distinct q \<longrightarrow> distinct rest \<and> other \<notin> set rest)"
  by (induction q) (auto split: if_splits)

lemma registry_okI:
  assumes "\<And>x y. ps x = Some y \<Longrightarrow> ps y = Some x \<and> x \<noteq> y" "distinct q"
    "\<And>x. x \<in> set q \<Longrightarrow> ps x = None"
  shows "registry_ok ps q"
  unfolding registry_ok_def using assms by blast

lemma registry_ok_distinct: "registry_ok ps q \<Longrightarrow> distinct q"
  unfolding registry_ok_def by blast

lemma registry_ok_free: "registry_ok ps q \<Longrightarrow> x \<in> set q \<Longrightarrow> ps x = None"
  unfolding registry_ok_def by blast

lemma registry_ok_sym: "registry_ok ps q \<Longrightarrow> ps x = Some y \<Longrightarrow> ps y = Some x \<and> x \<noteq> y"
  unfolding registry_ok_def by blast

lemma pair_sym:
  assumes sym: "\<And>x y. ps x = Some y \<Longrightarrow> ps y = Some x \<and> x \<noteq> y"
    and a: "ps a = None" and b: "ps b = None" and ab: "a \<noteq> b"
    and h: "pair a b ps x = Some y"
  shows "pair a b ps y = Some x \<and> x \<noteq> y"
proof -
  consider "x = b" | "x = a" "x \<noteq> b" | "x \<noteq> a" "x \<noteq> b" by blast
  then show ?thesis
  proof cases
    case 1
    with h ab show ?thesis by (simp add: pair_def)
  next
    case 2
    with h ab show ?thesis by (simp add: pair_def)
  next
    case 3
    with h have pxy: "ps x = Some y" by (simp add: pair_def)
    from sym[OF pxy] have pyx: "ps y = Some x" and xy: "x \<noteq> y" by simp_all
    from pyx a b have "y \<noteq> a" "y \<noteq> b" by auto
    with pyx xy show ?thesis by (simp add: pair_def)
  qed
qed

lemma registry_ok_pair:
  assumes ok: "registry_ok ps q" and a: "ps a = None" and b: "ps b = None" and ab: "a \<noteq> b"
    and r: "distinct r" "set r \<subseteq> set q" "a \<notin> set r" "b \<notin> set r"
  shows "registry_ok (pair a b ps) r"
proof -
  note sym = registry_ok_sym[OF ok] and free = registry_ok_free[OF ok]
  have "pair a b ps x = None" if "x \<in> set r" for x
  proof -
    from that r have "x \<noteq> a" "x \<noteq> b" "x \<in> set q" by blast+
    with free show ?thesis by (simp add: pair_def)
  qed
  then show ?thesis
    using r(1) by (intro registry_okI) (rule pair_sym[OF sym a b ab], assumption+)
qed

lemma registry_ok_enqueue:
  assumes "registry_ok ps q" "ps a = None"
  shows "registry_ok ps [a]"
  using assms(2) by (intro registry_okI) (rule registry_ok_sym[OF assms(1)], simp_all)

lemma unpair_truthy: "truthy (ps a) = Some b \<Longrightarrow> unpair a ps = (ps(b := None))(a := None)"
  by (simp add: unpair_def)

lemma truthy_Some: "truthy v = Some b \<Longrightarrow> v = Some b"
  by (cases v) (simp_all add: truthy_def split: if_splits)

lemma registry_ok_unpair:
  assumes ok: "registry_ok ps q" and t: "truthy (ps a) = Some b"
  shows "registry_ok (unpair a ps) (filter P q)"
proof -
  note sym = registry_ok_sym[OF ok] and free = registry_ok_free[OF ok]
    and d = registry_ok_distinct[OF ok]
  let ?ps = "(ps(b := None))(a := None)"
  from t have pab: "ps a = Some b" by (rule truthy_Some)
  from sym[OF pab] have pba: "ps b = Some a" by simp
  have s: "?ps y = Some x \<and> x \<noteq> y" if h: "?ps x = Some y" for x y
  proof -
    from h have xa: "x \<noteq> a" and xb: "x \<noteq> b" and pxy: "ps x = Some y"
      by (auto split: if_splits)
    from sym[OF pxy] have pyx: "ps y = Some x" and xy: "x \<noteq> y" by simp_all
    from pyx pab pba xa xb have "y \<noteq> a" "y \<noteq> b" by auto
    with pyx xy show ?thesis by simp
  qed
  have f: "?ps x = None" if "x \<in> set (filter P q)" for x
    using that free by simp
  have "unpair a ps = ?ps" using t by (rule unpair_truthy)
  moreover have "registry_ok ?ps (filter P q)"
    using d by (intro registry_okI) (rule s, assumption, simp, rule f)
  ultimately show ?thesis by simp
qed

lemma registry_ok_filter:
  assumes "registry_ok ps q"
  shows "registry_ok ps (filter P q)"
  using registry_ok_distinct[OF assms] registry_ok_free[OF assms]
  by (intro registry_okI) (rule registry_ok_sym[OF assms], simp_all)

lemma on_find_ok:
  assumes "registry_ok (partners st) (queue st)"
  shows "registry_ok (partners (fst (on_find s st))) (queue (fst (on_find s st)))"
proof (cases "isAgreed st s \<and> partners st s = None \<and> s \<notin> set (queue st)")
  case False
  then show ?thesis using assms by (auto simp: on_find_def requireAgree_def)
next
  case True
  obtain r rest where fl: "find_loop s (partners st) (queue st) = (r, rest)"
    by (cases "find_loop s (partners st) (queue st)")
  show ?thesis
  proof (cases r)
    case None
    with fl have "rest = []" using find_loop_None by blast
    with True fl None registry_ok_enqueue[OF assms, of s] show ?thesis
      by (simp add: on_find_def requireAgree_def)
  next
    case (Some other)
    from find_loop_Some[OF fl[unfolded Some]] registry_ok_distinct[OF assms] True
    have "registry_ok (pair s other (partners st)) rest"
      by (intro registry_ok_pair[OF assms]) auto
    with True fl Some show ?thesis
      by (simp add: on_find_def requireAgree_def)
  qed
qed

lemma teardown_ok:
  assumes "registry_ok (partners st) (queue st)"
  shows "registry_ok (partners (fst (teardown s st))) (queue (fst (teardown s st)))"
proof (cases "truthy (partners st s)")
  case None
  with assms show ?thesis by (simp add: teardown_def registry_ok_filter)
next
  case (Some p)
  with assms show ?thesis by (simp add: teardown_def registry_ok_unpair)
qed


lemma on_connection_same:
  "partners (fst (on_connection now s hs st)) = partners st \<and> queue (fst (on_connection now s hs st)) = queue st"
  by (simp add: on_connection_def isTemporarilyBanned_def Let_def)

lemma on_agree_same:
  "partners (fst (on_agree s st)) = partners st \<and> queue (fst (on_agree s st)) = queue st"
  by (simp add: on_agree_def)

lemma on_message_same: "fst (on_message s m st) = st"
  by (simp add: on_message_def requireAgree_def Let_def split: jsval.splits option.splits)

lemma on_photo_offer_same:
  "partners (fst (on_photo_offer s d st)) = partners st \<and> queue (fst (on_photo_offer s d st)) = queue st"
  by (simp add: on_photo_offer_def requireAgree_def split: jsval.splits option.splits)

lemma on_photo_accept_same:
  "partners (fst (on_photo_accept s st)) = partners st \<and> queue (fst (on_photo_accept s st)) = queue st"
  by (simp add: on_photo_accept_def requireAgree_def split: option.splits)

lemma on_photo_decline_same:
  "partners (fst (on_photo_decline s st)) = partners st \<and> queue (fst (on_photo_decline s st)) = queue st"
  by (simp add: on_photo_decline_def requireAgree_def split: option.splits)

lemma on_video_offer_same:
  "partners (fst (on_video_offer s d st)) = partners st \<and> queue (fst (on_video_offer s d st)) = queue st"
  by (simp add: on_video_offer_def requireAgree_def split: jsval.splits option.splits)

lemma on_video_accept_same:
  "partners (fst (on_video_accept s st)) = partners st \<and> queue (fst (on_video_accept s st)) = queue st"
  by (simp add: on_video_accept_def requireAgree_def split: option.splits)

lemma on_video_decline_same:
  "partners (fst (on_video_decline s st)) = partners st \<and> queue (fst (on_video_decline s st)) = queue st"
  by (simp add: on_video_decline_def requireAgree_def split: option.splits)

lemma on_stop_ok:
  assumes "registry_ok (partners st) (queue st)"
  shows "registry_ok (partners (fst (on_stop s st))) (queue (fst (on_stop s st)))"
  using assms teardown_ok[OF assms, of s]
  by (simp add: on_stop_def requireAgree_def case_prod_beta)

lemma on_report_regs:
  "(partners (fst (on_report now s st)) = partners st
    \<or> (\<exists>p. truthy (partners st s) = Some p \<and> partners (fst (on_report now s st)) = unpair s (partners st)))
   \<and> queue (fst (on_report now s st)) = queue st"
  by (simp add: on_report_def requireAgree_def Let_def split: option.splits)

lemma on_report_ok:
  assumes "registry_ok (partners st) (queue st)"
  shows "registry_ok (partners (fst (on_report now s st))) (queue (fst (on_report now s st)))"
proof -
  from on_report_regs[of now s st]
  have q: "queue (fst (on_report now s st)) = queue st"
    and p: "partners (fst (on_report now s st)) = partners st
      \<or> (\<exists>p. truthy (partners st s) = Some p \<and> partners (fst (on_report now s st)) = unpair s (partners st))"
    by blast+
  from p show ?thesis
  proof
    assume "partners (fst (on_report now s st)) = partners st"
    with q assms show ?thesis by simp
  next
    assume "\<exists>p. truthy (partners st s) = Some p \<and> partners (fst (on_report now s st)) = unpair s (partners st)"
    then obtain p where t: "truthy (partners st s) = Some p"
      and e: "partners (fst (on_report now s st)) = unpair s (partners st)" by blast
    from registry_ok_unpair[OF assms t, of "\<lambda>_. True"] e q show ?thesis by simp
  qed
qed

lemma on_disconnect_ok:
  assumes "registry_ok (partners st) (queue st)"
  shows "registry_ok (partners (fst (on_disconnect s st))) (queue (fst (on_disconnect s st)))"
  using teardown_ok[OF assms, of s]
  by (simp add: on_disconnect_def case_prod_beta)

lemma handle_ok:
  assumes "registry_ok (partners st) (queue st)"
  shows "registry_ok (partners (fst (handle now s e st))) (queue (fst (handle now s e st)))"
  using assms
  by (cases e)
     (simp_all add: on_agree_same on_find_ok on_stop_ok on_message_same on_report_ok
        on_photo_offer_same on_photo_accept_same on_photo_decline_same
        on_video_offer_same on_video_accept_same on_video_decline_same)

lemma step_ok:
  assumes "registry_ok (partners st) (queue st)"
  shows "registry_ok (partners (fst (step i st))) (queue (fst (step i st)))"
proof (cases i)
  case (Pair now inp)
  show ?thesis
  proof (cases inp)
    case (Connection s hs)
    with Pair assms show ?thesis by (simp add: on_connection_same)
  next
    case (Client s e)
    with Pair assms handle_ok[OF assms] show ?thesis by simp
  next
    case (Disconnected s)
    with Pair assms on_disconnect_ok[OF assms, of s] show ?thesis
      by (simp add: case_prod_beta)
  qed
qed

lemma run_ok:
  "registry_ok (partners st) (queue st) \<Longrightarrow> registry_ok (partners (run is st)) (queue (run is st))"
  by (induction "is" arbitrary: st) (simp_all add: step_ok)

lemma init_ok: "registry_ok (partners init) (queue init)"
  by (simp add: init_def registry_ok_def)

lemma upd_conn_same:
  "partners_sjs (upd_conn s f st) = partners_sjs st \<and> queue_sjs (upd_conn s f st) = queue_sjs st"
  by (simp add: upd_conn_def split: option.splits)

lemma on_find_sjs_ok:
  assumes "registry_ok (partners_sjs st) (queue_sjs st)"
  shows "registry_ok (partners_sjs (fst (on_find_sjs s st))) (queue_sjs (fst (on_find_sjs s st)))"
proof (cases "isAgreed_sjs st s \<and> partners_sjs st s = None \<and> s \<notin> set (queue_sjs st)")
  case False
  then show ?thesis using assms by (auto simp: on_find_sjs_def requireAgree_sjs_def)
next
  case True
  obtain r rest where fl: "find_loop_sjs s (partners_sjs st) (queue_sjs st) = (r, rest)"
    by (cases "find_loop_sjs s (partners_sjs st) (queue_sjs st)")
  show ?thesis
  proof (cases r)
    case None
    with fl have "rest = []" using find_loop_sjs_None by blast
    with True fl None registry_ok_enqueue[OF assms, of s] show ?thesis
      by (simp add: on_find_sjs_def requireAgree_sjs_def)
  next
    case (Some other)
    from find_loop_sjs_Some[OF fl[unfolded Some]] registry_ok_distinct[OF assms] True
    have "registry_ok (pair s other (partners_sjs st)) rest"
      by (intro registry_ok_pair[OF assms]) auto
    with True fl Some show ?thesis
      by (simp add: on_find_sjs_def requireAgree_sjs_def)
  qed
qed

lemma teardown_sjs_ok:
  assumes "registry_ok (partners_sjs st) (queue_sjs st)"
  shows "registry_ok (partners_sjs (fst (teardown_sjs s st))) (queue_sjs (fst (teardown_sjs s st)))"
proof (cases "truthy (partners_sjs st s)")
  case None
  with assms show ?thesis by (simp add: teardown_sjs_def registry_ok_filter)
next
  case (Some p)
  with assms show ?thesis by (simp add: teardown_sjs_def registry_ok_unpair)
qed

lemma on_next_sjs_ok:
  assumes "registry_ok (partners_sjs st) (queue_sjs st)"
  shows "registry_ok (partners_sjs (fst (on_next_sjs s st))) (queue_sjs (fst (on_next_sjs s st)))"
  using assms teardown_sjs_ok[OF assms, of s]
  by (simp add: on_next_sjs_def requireAgree_sjs_def case_prod_beta)

lemma on_stop_sjs_ok:
  assumes "registry_ok (partners_sjs st) (queue_sjs st)"
  shows "registry_ok (partners_sjs (fst (on_stop_sjs s st))) (queue_sjs (fst (on_stop_sjs s st)))"
  using assms teardown_sjs_ok[OF assms, of s]
  by (simp add: on_stop_sjs_def requireAgree_sjs_def case_prod_beta)

lemma on_disconnect_sjs_ok:
  assumes "registry_ok (partners_sjs st) (queue_sjs st)"
  shows "registry_ok (partners_sjs (fst (on_disconnect_sjs s st))) (queue_sjs (fst (on_disconnect_sjs s st)))"
  using teardown_sjs_ok[OF assms, of s]
  by (simp add: on_disconnect_sjs_def case_prod_beta Let_def upd_conn_same)

lemma on_connection_sjs_same:
  "partners_sjs (fst (on_connection_sjs s hs st)) = partners_sjs st
   \<and> queue_sjs (fst (on_connection_sjs s hs st)) = queue_sjs st"
  by (simp add: on_connection_sjs_def Let_def)

lemma on_agree_sjs_same:
  "partners_sjs (fst (on_agree_sjs s st)) = partners_sjs st \<and> queue_sjs (fst (on_agree_sjs s st)) = queue_sjs st"
  by (simp add: on_agree_sjs_def upd_conn_same)

lemma on_message_sjs_same: "fst (on_message_sjs s m st) = st"
  by (simp add: on_message_sjs_def requireAgree_sjs_def Let_def split: jsval.splits option.splits)

lemma on_report_sjs_same: "on_report_sjs s st = Inr (st', out) \<Longrightarrow> st' = st"
  by (auto simp: on_report_sjs_def requireAgree_sjs_def split: option.splits if_splits)

lemma on_photo_offer_sjs_same:
  "partners_sjs (fst (on_photo_offer_sjs s d st)) = partners_sjs st
   \<and> queue_sjs (fst (on_photo_offer_sjs s d st)) = queue_sjs st"
  by (simp add: on_photo_offer_sjs_def requireAgree_sjs_def upd_conn_same split: jsval.splits option.splits)

lemma on_photo_accept_sjs_same:
  "partners_sjs (fst (on_photo_accept_sjs s st)) = partners_sjs st
   \<and> queue_sjs (fst (on_photo_accept_sjs s st)) = queue_sjs st"
  by (simp add: on_photo_accept_sjs_def requireAgree_sjs_def upd_conn_same split: option.splits)

lemma on_photo_decline_sjs_same:
  "partners_sjs (fst (on_photo_decline_sjs s st)) = partners_sjs st
   \<and> queue_sjs (fst (on_photo_decline_sjs s st)) = queue_sjs st"
  by (simp add: on_photo_decline_sjs_def requireAgree_sjs_def upd_conn_same split: option.splits)

lemma video_offer1_same:
  "partners_sjs (fst (video_offer1 s d st)) = partners_sjs st
   \<and> queue_sjs (fst (video_offer1 s d st)) = queue_sjs st"
  by (simp add: video_offer1_def requireAgree_sjs_def upd_conn_same split: jsval.splits option.splits)

lemma video_accept1_same:
  "partners_sjs (fst (video_accept1 s st)) = partners_sjs st
   \<and> queue_sjs (fst (video_accept1 s st)) = queue_sjs st"
  by (simp add: video_accept1_def requireAgree_sjs_def upd_conn_same split: option.splits)

lemma video_accept2_same:
  "partners_sjs (fst (video_accept2 s st)) = partners_sjs st
   \<and> queue_sjs (fst (video_accept2 s st)) = queue_sjs st"
  by (simp add: video_accept2_def requireAgree_sjs_def upd_conn_same split: option.splits)

lemma video_decline1_same:
  "partners_sjs (fst (video_decline1 s st)) = partners_sjs st
   \<and> queue_sjs (fst (video_decline1 s st)) = queue_sjs st"
  by (simp add: video_decline1_def requireAgree_sjs_def upd_conn_same split: option.splits)

lemma video_decline2_same:
  "partners_sjs (fst (video_decline2 s st)) = partners_sjs st
   \<and> queue_sjs (fst (video_decline2 s st)) = queue_sjs st"
  by (simp add: video_decline2_def requireAgree_sjs_def upd_conn_same)

lemma both_same:
  assumes "\<And>st. partners_sjs (fst (f st)) = partners_sjs st \<and> queue_sjs (fst (f st)) = queue_sjs st"
    and "\<And>st. partners_sjs (fst (g st)) = partners_sjs st \<and> queue_sjs (fst (g st)) = queue_sjs st"
  shows "partners_sjs (fst (both f g st)) = partners_sjs st \<and> queue_sjs (fst (both f g st)) = queue_sjs st"
  using assms(1)[of st] assms(2)[of "fst (f st)"] by (simp add: both_def case_prod_beta)

lemma handle_sjs_ok:
  assumes "registry_ok (partners_sjs st) (queue_sjs st)" and "handle_sjs s e st = Inr (st', out)"
  shows "registry_ok (partners_sjs st') (queue_sjs st')"
proof (cases e)
  case Agree_sjs
  with assms on_agree_sjs_same[of s st] show ?thesis by (cases "on_agree_sjs s st") auto
next
  case Find_sjs
  with assms on_find_sjs_ok[OF assms(1), of s] show ?thesis by (cases "on_find_sjs s st") auto
next
  case Next_sjs
  with assms on_next_sjs_ok[OF assms(1), of s] show ?thesis by (cases "on_next_sjs s st") auto
next
  case Stop_sjs
  with assms on_stop_sjs_ok[OF assms(1), of s] show ?thesis by (cases "on_stop_sjs s st") auto
next
  case (Message_sjs m)
  with assms on_message_sjs_same[of s m st] show ?thesis by (cases "on_message_sjs s m st") auto
next
  case Report_sjs
  with assms on_report_sjs_same[of s st st' out] show ?thesis by simp
next
  case (PhotoOffer_sjs d)
  with assms on_photo_offer_sjs_same[of s d st] show ?thesis by (cases "on_photo_offer_sjs s d st") auto
next
  case PhotoAccept_sjs
  with assms on_photo_accept_sjs_same[of s st] show ?thesis by (cases "on_photo_accept_sjs s st") auto
next
  case PhotoDecline_sjs
  with assms on_photo_decline_sjs_same[of s st] show ?thesis by (cases "on_photo_decline_sjs s st") auto
next
  case (VideoOffer_sjs d)
  with assms both_same[of "video_offer1 s d" "video_offer2 s d" st, OF video_offer1_same video_offer1_same[folded video_offer2_def]]
  show ?thesis by (cases "both (video_offer1 s d) (video_offer2 s d) st") auto
next
  case VideoAccept_sjs
  with assms both_same[of "video_accept1 s" "video_accept2 s" st, OF video_accept1_same video_accept2_same]
  show ?thesis by (cases "both (video_accept1 s) (video_accept2 s) st") auto
next
  case VideoDecline_sjs
  with assms both_same[of "video_decline1 s" "video_decline2 s" st, OF video_decline1_same video_decline2_same]
  show ?thesis by (cases "both (video_decline1 s) (video_decline2 s) st") auto
qed

lemma step_sjs_ok:
  assumes "registry_ok (partners_sjs st) (queue_sjs st)" and "step_sjs i st = Inr (st', out)"
  shows "registry_ok (partners_sjs st') (queue_sjs st')"
proof (cases i)
  case (Connection_sjs s hs)
  with assms on_connection_sjs_same[of s hs st] show ?thesis
    by (cases "on_connection_sjs s hs st") auto
next
  case (Client_sjs s e)
  with assms handle_sjs_ok[OF assms(1), of s e st' out] show ?thesis
    by (cases "sockets_sjs st s = None") auto
next
  case (Disconnected_sjs s)
  with assms on_disconnect_sjs_ok[OF assms(1), of s] show ?thesis
    by (cases "sockets_sjs st s = None") (auto simp: case_prod_beta)
qed

lemma run_sjs_ok:
  "registry_ok (partners_sjs st) (queue_sjs st) \<Longrightarrow> run_sjs is st = Inr st' \<Longrightarrow>
   registry_ok (partners_sjs st') (queue_sjs st')"
proof (induction "is" arbitrary: st)
  case Nil
  then show ?case by simp
next
  case (Cons i "is")
  from Cons.prems(2) obtain st1 out where s: "step_sjs i st = Inr (st1, out)"
    and r: "run_sjs is st1 = Inr st'"
    by (auto split: sum.splits)
  from Cons.IH[OF step_sjs_ok[OF Cons.prems(1) s] r] show ?case .
qed

lemma init_sjs_ok: "registry_ok (partners_sjs init_sjs) (queue_sjs init_sjs)"
  by (simp add: init_sjs_def registry_ok_def)

section \<open>What find does\<close>

lemma find_loop_first_available:
  "[] \<notin> set q \<Longrightarrow>
   find_loop s ps q = (case first_available s ps q of [] \<Rightarrow> (None, []) | other # rest \<Rightarrow> (Some other, rest))"
  by (induction q) (auto simp: first_available_def)

lemma find_loop_sjs_first_available:
  "find_loop_sjs s ps q = (case first_available s ps q of [] \<Rightarrow> (None, []) | other # rest \<Rightarrow> (Some other, rest))"
  by (induction q) (auto simp: first_available_def)

lemma first_available_Cons:
  "first_available s ps q = other # rest \<Longrightarrow>
     other \<in> set q \<and> other \<noteq> s \<and> ps other = None \<and> set rest \<subseteq> set q"
  unfolding first_available_def
  using hd_dropWhile[of "\<lambda>other. other = s \<or> ps other \<noteq> None" q] set_dropWhileD[of _ "\<lambda>other. other = s \<or> ps other \<noteq> None" q]
  by (metis (mono_tags, lifting) list.distinct(1) list.sel(1) list.set_intros(1) list.set_intros(2) subsetI)

lemma on_find_result:
  assumes "isAgreed st s" "[] \<notin> set (queue st)" "partners st s = None" "s \<notin> set (queue st)"
  shows "on_find s st =
     (case first_available s (partners st) (queue st) of
        [] \<Rightarrow> (st\<lparr>queue := [s]\<rparr>, [Emit s ''searching'' NoPayload])
      | other # rest \<Rightarrow>
          (st\<lparr>queue := rest, partners := ((partners st)(s \<mapsto> other))(other \<mapsto> s)\<rparr>,
           [Emit s ''matched'' NoPayload, Emit other ''matched'' NoPayload]))"
proof (cases "first_available s (partners st) (queue st)")
  case Nil
  with assms show ?thesis
    by (simp add: on_find_def requireAgree_def find_loop_first_available)
next
  case (Cons other rest)
  from first_available_Cons[OF Cons] assms(2) have "other \<noteq> []" by metis
  with Cons assms show ?thesis
    by (simp add: on_find_def requireAgree_def find_loop_first_available pair_def emitTo_def)
qed

lemma on_find_exactly_one:
  assumes "isAgreed st s" "[] \<notin> set (queue st)" "partners st s = None" "s \<notin> set (queue st)"
  shows "(partners (fst (on_find s st)) s \<noteq> None) \<noteq> (s \<in> set (queue (fst (on_find s st))))"
proof (cases "first_available s (partners st) (queue st)")
  case Nil
  with assms show ?thesis by (simp add: on_find_result)
next
  case (Cons other rest)
  from first_available_Cons[OF Cons] assms(4) have "s \<notin> set rest" by blast
  with Cons assms show ?thesis by (simp add: on_find_result)
qed

lemma on_find_noop:
  assumes "isAgreed st s" "partners st s \<noteq> None \<or> s \<in> set (queue st)"
  shows "on_find s st = (st, [])"
  using assms by (auto simp: on_find_def requireAgree_def)

lemma on_find_sjs_result:
  assumes "isAgreed_sjs st s" "partners_sjs st s = None" "s \<notin> set (queue_sjs st)"
  shows "on_find_sjs s st =
     (case first_available s (partners_sjs st) (queue_sjs st) of
        [] \<Rightarrow> (st\<lparr>queue_sjs := [s]\<rparr>, [Emit s ''searching'' NoPayload])
      | other # rest \<Rightarrow>
          (st\<lparr>queue_sjs := rest, partners_sjs := ((partners_sjs st)(s \<mapsto> other))(other \<mapsto> s)\<rparr>,
           [Emit s ''matched'' NoPayload, Emit other ''matched'' NoPayload]))"
  using assms
  by (cases "first_available s (partners_sjs st) (queue_sjs st)")
     (simp_all add: on_find_sjs_def requireAgree_sjs_def find_loop_sjs_first_available pair_def)

lemma on_find_sjs_exactly_one:
  assumes "isAgreed_sjs st s" "partners_sjs st s = None" "s \<notin> set (queue_sjs st)"
  shows "(partners_sjs (fst (on_find_sjs s st)) s \<noteq> None) \<noteq> (s \<in> set (queue_sjs (fst (on_find_sjs s st))))"
proof (cases "first_available s (partners_sjs st) (queue_sjs st)")
  case Nil
  with assms show ?thesis by (simp add: on_find_sjs_result)
next
  case (Cons other rest)
  from first_available_Cons[OF Cons] assms(3) have "s \<notin> set rest" by blast
  with Cons assms show ?thesis by (simp add: on_find_sjs_result)
qed

lemma on_find_sjs_noop:
  assumes "isAgreed_sjs st s" "partners_sjs st s \<noteq> None \<or> s \<in> set (queue_sjs st)"
  shows "on_find_sjs s st = (st, [])"
  using assms by (auto simp: on_find_sjs_def requireAgree_sjs_def)

section \<open>Evaluating the sample runs\<close>

lemmas eval_defs = on_connection_def on_agree_def on_find_def on_stop_def on_message_def
  on_report_def on_photo_offer_def on_photo_accept_def on_photo_decline_def on_video_offer_def
  on_video_accept_def on_video_decline_def on_disconnect_def teardown_def requireAgree_def
  isAgreed_def isTemporarilyBanned_def truthy_def pair_def unpair_def
  emitTo_def init_def connect_agree_def

lemmas eval_sjs_defs = on_connection_sjs_def on_agree_sjs_def on_find_sjs_def on_next_sjs_def
  on_stop_sjs_def on_message_sjs_def on_report_sjs_def on_disconnect_sjs_def teardown_sjs_def
  requireAgree_sjs_def isAgreed_sjs_def upd_conn_def truthy_def pair_def unpair_def
  init_sjs_def connect_agree_sjs_def

lemma names: "js ''A'' \<noteq> js ''B''" "js ''A'' \<noteq> js ''C''" "js ''B'' \<noteq> js ''C''"
  "js ''B'' \<noteq> js ''A''" "js ''C'' \<noteq> js ''A''" "js ''C'' \<noteq> js ''B''"
  "js ''A'' \<noteq> []" "js ''B'' \<noteq> []" "js ''C'' \<noteq> []"
  "[] \<noteq> js ''A''" "[] \<noteq> js ''B''" "[] \<noteq> js ''C''"
  by (simp_all add: js_def)

lemma waiting_fields:
  "queue waiting = [js ''A'']" "partners waiting = Map.empty"
  "sockets waiting (js ''A'') = Some True" "sockets waiting (js ''B'') = Some True"
  "pendingPhotos waiting = Map.empty" "pendingVideos waiting = Map.empty"
  "tempBans waiting = Map.empty" "reportVotes waiting = Map.empty"
  "identBySocket waiting = [js ''A'' \<mapsto> makeIdent hs0, js ''B'' \<mapsto> makeIdent hs0]"
  by (simp_all add: waiting_def waiting_run_def eval_defs names)

lemma chatting_fields:
  "queue chatting = []" "partners chatting = [js ''B'' \<mapsto> js ''A'', js ''A'' \<mapsto> js ''B'']"
  "sockets chatting (js ''A'') = Some True" "sockets chatting (js ''B'') = Some True"
  "pendingPhotos chatting = Map.empty" "pendingVideos chatting = Map.empty"
  "tempBans chatting = Map.empty" "reportVotes chatting = Map.empty"
  "identBySocket chatting = [js ''A'' \<mapsto> makeIdent hs0, js ''B'' \<mapsto> makeIdent hs0]"
  by (simp_all add: chatting_def chatting_run_def waiting_run_def eval_defs names)

lemma chatting3_fields:
  "queue chatting3 = [js ''C'']" "partners chatting3 = [js ''B'' \<mapsto> js ''A'', js ''A'' \<mapsto> js ''B'']"
  "sockets chatting3 (js ''A'') = Some True" "sockets chatting3 (js ''B'') = Some True"
  "sockets chatting3 (js ''C'') = Some True"
  by (simp_all add: chatting3_def chatting3_run_def chatting_run_def waiting_run_def eval_defs names)

lemma waiting_sjs_reached: "run_sjs waiting_sjs_run init_sjs = Inr waiting_sjs"
  by (simp add: waiting_sjs_run_def waiting_sjs_def conn0_def eval_sjs_defs names)

lemma chatting_sjs_reached: "run_sjs chatting_sjs_run init_sjs = Inr chatting_sjs"
  by (simp add: chatting_sjs_run_def waiting_sjs_run_def chatting_sjs_def waiting_sjs_def conn0_def eval_sjs_defs names)

lemma chatting_sjs_fields:
  "isAgreed_sjs chatting_sjs (js ''A'')" "isAgreed_sjs chatting_sjs (js ''B'')"
  "queue_sjs chatting_sjs = []"
  "partners_sjs chatting_sjs (js ''A'') = Some (js ''B'')"
  "partners_sjs chatting_sjs (js ''B'') = Some (js ''A'')"
  "identBySocket_sjs chatting_sjs (js ''B'') = Some (makeIdent hs0)"
  by (simp_all add: chatting_sjs_def waiting_sjs_def isAgreed_sjs_def conn0_def names)

lemma waiting_sjs_fields:
  "isAgreed_sjs waiting_sjs (js ''A'')" "isAgreed_sjs waiting_sjs (js ''B'')"
  "queue_sjs waiting_sjs = [js ''A'']" "partners_sjs waiting_sjs = Map.empty"
  by (simp_all add: waiting_sjs_def isAgreed_sjs_def conn0_def names)

section \<open>Messages\<close>

lemma trim_inside:
  "\<exists>l r. m = l @ trim m @ r \<and> (\<forall>c \<in> set l. is_ws c) \<and> (\<forall>c \<in> set r. is_ws c)"
proof -
  let ?l = "takeWhile is_ws m"
  let ?ys = "dropWhile is_ws m"
  let ?r = "rev (takeWhile is_ws (rev ?ys))"
  have "rev (dropWhile is_ws (rev ?ys)) @ ?r = rev (rev ?ys)"
    by (metis rev_append takeWhile_dropWhile_id)
  then have "?ys = trim m @ ?r" by (simp add: trim_def)
  then have "m = ?l @ trim m @ ?r" by (metis takeWhile_dropWhile_id)
  moreover have "\<forall>c \<in> set ?l. is_ws c" by (meson set_takeWhileD)
  moreover have "\<forall>c \<in> set ?r. is_ws c" by (metis set_rev set_takeWhileD)
  ultimately show ?thesis by blast
qed

section \<open>Pending offers\<close>

lemma media: "startsWith png (js ''data:image/'')" "startsWith png2 (js ''data:image/'')"
  "startsWith mp4 (js ''data:video/'')" "startsWith mp42 (js ''data:video/'')"
  by (simp_all add: startsWith_def png_def png2_def mp4_def mp42_def js_def)

lemma offered_fields:
  "queue offered = []" "partners offered = [js ''B'' \<mapsto> js ''A'', js ''A'' \<mapsto> js ''B'']"
  "sockets offered (js ''A'') = Some True" "sockets offered (js ''B'') = Some True"
  "pendingPhotos offered = [js ''B'' \<mapsto> \<lparr>fromSocketId = js ''A'', dataUrl = png\<rparr>]"
  "pendingVideos offered = Map.empty"
  by (simp_all add: offered_def offered_run_def chatting_run_def waiting_run_def eval_defs names media)

lemma teardown_pending:
  "pendingPhotos (fst (teardown s st)) = pendingPhotos st \<and> pendingVideos (fst (teardown s st)) = pendingVideos st
   \<and> sockets (fst (teardown s st)) = sockets st"
  by (simp add: teardown_def split: option.splits)

lemma on_stop_pending:
  "pendingPhotos (fst (on_stop s st)) = pendingPhotos st \<and> pendingVideos (fst (on_stop s st)) = pendingVideos st
   \<and> sockets (fst (on_stop s st)) = sockets st"
  using teardown_pending[of s st] by (simp add: on_stop_def requireAgree_def case_prod_beta)

lemma on_disconnect_pending:
  "pendingPhotos (fst (on_disconnect s st)) = (pendingPhotos st)(s := None)
   \<and> pendingVideos (fst (on_disconnect s st)) = (pendingVideos st)(s := None)
   \<and> sockets (fst (on_disconnect s st)) = sockets st"
  using teardown_pending[of s st] by (simp add: on_disconnect_def case_prod_beta)

lemma on_find_pending:
  "pendingPhotos (fst (on_find s st)) = pendingPhotos st \<and> pendingVideos (fst (on_find s st)) = pendingVideos st"
  by (simp add: on_find_def requireAgree_def split: prod.splits option.splits)

lemma on_report_pending:
  "pendingPhotos (fst (on_report now s st)) = pendingPhotos st \<and> pendingVideos (fst (on_report now s st)) = pendingVideos st"
  by (simp add: on_report_def requireAgree_def Let_def split: option.splits)

lemma on_connection_pending:
  "pendingPhotos (fst (on_connection now s hs st)) = pendingPhotos st
   \<and> pendingVideos (fst (on_connection now s hs st)) = pendingVideos st"
  by (simp add: on_connection_def isTemporarilyBanned_def Let_def)

lemma on_photo_offer_pending:
  "pendingPhotos st r \<noteq> None \<Longrightarrow> pendingPhotos (fst (on_photo_offer s d st)) r \<noteq> None"
  "pendingVideos (fst (on_photo_offer s d st)) = pendingVideos st"
  by (simp_all add: on_photo_offer_def requireAgree_def split: option.splits jsval.splits)

lemma on_video_offer_pending:
  "pendingVideos st r \<noteq> None \<Longrightarrow> pendingVideos (fst (on_video_offer s d st)) r \<noteq> None"
  "pendingPhotos (fst (on_video_offer s d st)) = pendingPhotos st"
  by (simp_all add: on_video_offer_def requireAgree_def split: option.splits jsval.splits)

lemma on_photo_accept_pending:
  "r \<noteq> s \<Longrightarrow> pendingPhotos (fst (on_photo_accept s st)) r = pendingPhotos st r"
  "pendingVideos (fst (on_photo_accept s st)) = pendingVideos st"
  by (simp_all add: on_photo_accept_def requireAgree_def split: option.splits)

lemma on_photo_decline_pending:
  "r \<noteq> s \<Longrightarrow> pendingPhotos (fst (on_photo_decline s st)) r = pendingPhotos st r"
  "pendingVideos (fst (on_photo_decline s st)) = pendingVideos st"
  by (simp_all add: on_photo_decline_def requireAgree_def split: option.splits)

lemma on_video_accept_pending:
  "r \<noteq> s \<Longrightarrow> pendingVideos (fst (on_video_accept s st)) r = pendingVideos st r"
  "pendingPhotos (fst (on_video_accept s st)) = pendingPhotos st"
  by (simp_all add: on_video_accept_def requireAgree_def split: option.splits)

lemma on_video_decline_pending:
  "r \<noteq> s \<Longrightarrow> pendingVideos (fst (on_video_decline s st)) r = pendingVideos st r"
  "pendingPhotos (fst (on_video_decline s st)) = pendingPhotos st"
  by (simp_all add: on_video_decline_def requireAgree_def split: option.splits)

lemma step_keeps_photo:
  assumes "pendingPhotos st r \<noteq> None" and "pendingPhotos (fst (step (now, i) st)) r = None"
  shows "i = Disconnected r \<or> i = Client r PhotoAccept \<or> i = Client r PhotoDecline"
proof (cases i)
  case (Connection s hs)
  with assms show ?thesis by (simp add: on_connection_pending)
next
  case (Disconnected s)
  with assms show ?thesis
    by (cases "sockets st s = None"; cases "r = s") (simp_all add: case_prod_beta on_disconnect_pending)
next
  case (Client s e)
  show ?thesis
  proof (cases "sockets st s = None")
    case True
    with Client assms show ?thesis by simp
  next
    case False
    with Client assms show ?thesis
      by (cases e; cases "r = s")
         (simp_all add: on_agree_def on_find_pending on_stop_pending on_message_same on_report_pending
            on_photo_offer_pending on_photo_accept_pending on_photo_decline_pending
            on_video_offer_pending on_video_accept_pending on_video_decline_pending)
  qed
qed

lemma step_keeps_video:
  assumes "pendingVideos st r \<noteq> None" and "pendingVideos (fst (step (now, i) st)) r = None"
  shows "i = Disconnected r \<or> i = Client r VideoAccept \<or> i = Client r VideoDecline"
proof (cases i)
  case (Connection s hs)
  with assms show ?thesis by (simp add: on_connection_pending)
next
  case (Disconnected s)
  with assms show ?thesis
    by (cases "sockets st s = None"; cases "r = s") (simp_all add: case_prod_beta on_disconnect_pending)
next
  case (Client s e)
  show ?thesis
  proof (cases "sockets st s = None")
    case True
    with Client assms show ?thesis by simp
  next
    case False
    with Client assms show ?thesis
      by (cases e; cases "r = s")
         (simp_all add: on_agree_def on_find_pending on_stop_pending on_message_same on_report_pending
            on_photo_offer_pending on_photo_accept_pending on_photo_decline_pending
            on_video_offer_pending on_video_accept_pending on_video_decline_pending)
  qed
qed

lemma accept_delivers:
  assumes "isAgreed st r"
  shows "pendingPhotos st r = Some req \<Longrightarrow>
           on_photo_accept r st =
             (st\<lparr>pendingPhotos := (pendingPhotos st)(r := None)\<rparr>,
              [Emit r ''photo_deliver'' (DataUrlObj (dataUrl req))]
                @ emitTo (fromSocketId req) ''message'' (Text photo_accepted))
         \<and> on_photo_decline r st =
             (st\<lparr>pendingPhotos := (pendingPhotos st)(r := None)\<rparr>,
              emitTo (fromSocketId req) ''message'' (Text photo_declined))"
    and "pendingVideos st r = Some req \<Longrightarrow>
           on_video_accept r st =
             (st\<lparr>pendingVideos := (pendingVideos st)(r := None)\<rparr>,
              [Emit r ''video_deliver'' (DataUrlObj (dataUrl req))]
                @ emitTo (fromSocketId req) ''message'' (Text video_accepted))
         \<and> on_video_decline r st =
             (st\<lparr>pendingVideos := (pendingVideos st)(r := None)\<rparr>,
              emitTo (fromSocketId req) ''message'' (Text video_declined))"
  using assms
  by (simp_all add: on_photo_accept_def on_photo_decline_def on_video_accept_def on_video_decline_def
      requireAgree_def)

text \<open>The inputs that end a pairing without being the receiver's own disconnect.\<close>

lemma ending_keeps:
  assumes "i = Client s Stop \<or> (i = Disconnected s \<and> s \<noteq> r)"
  shows "pendingPhotos (fst (step (now, i) st)) r = pendingPhotos st r
    \<and> pendingVideos (fst (step (now, i) st)) r = pendingVideos st r
    \<and> sockets (fst (step (now, i) st)) r = sockets st r"
  using assms
  by (auto simp: on_stop_pending on_disconnect_pending case_prod_beta)

lemma offered_after_A_left:
  "pendingPhotos (fst (step (0, Disconnected (js ''A'')) offered)) (js ''B'')
     = Some \<lparr>fromSocketId = js ''A'', dataUrl = png\<rparr>"
  "partners (fst (step (0, Disconnected (js ''A'')) offered)) = Map.empty"
  "sockets (fst (step (0, Disconnected (js ''A'')) offered)) (js ''A'') = None"
  "pendingPhotos (fst (step (0, Client (js ''B'') PhotoAccept) offered)) (js ''B'') = None"
  by (simp_all add: offered_fields eval_defs names)

section \<open>Teardown\<close>

lemma teardown_result:
  assumes "partners st s \<noteq> Some []"
  shows "partners (fst (teardown s st)) s = None"
    and "s \<notin> set (queue (fst (teardown s st)))"
    and "snd (teardown s st) = (case partners st s of Some p \<Rightarrow> [Emit p ''partner_left'' NoPayload] | None \<Rightarrow> [])"
    and "partners st s = Some p \<Longrightarrow> partners (fst (teardown s st)) p = None"
  using assms
  by (auto simp: teardown_def truthy_def unpair_def emitTo_def split: option.splits)

lemma teardown_gone:
  assumes ok: "registry_ok (partners st) (queue st)" and ne: "partners st s \<noteq> Some []"
  shows "partners (fst (teardown s st)) x \<noteq> Some s"
proof
  assume h: "partners (fst (teardown s st)) x = Some s"
  have sub: "partners (fst (teardown s st)) x = Some s \<Longrightarrow> partners st x = Some s"
    by (auto simp: teardown_def truthy_def unpair_def split: option.splits if_splits)
  from sub[OF h] have xs: "partners st x = Some s" .
  from registry_ok_sym[OF ok xs] have sx: "partners st s = Some x" by simp
  from teardown_result(4)[OF ne sx] h show False by simp
qed

lemma teardown_again:
  assumes "partners st s \<noteq> Some []"
  shows "teardown s (fst (teardown s st)) = (fst (teardown s st), [])"
proof -
  from teardown_result(1)[OF assms]
  have "truthy (partners (fst (teardown s st)) s) = None" by (simp add: truthy_def)
  moreover have "filter (\<lambda>i. i \<noteq> s) (queue (fst (teardown s st))) = queue (fst (teardown s st))"
    by (simp add: teardown_def split: option.splits)
  ultimately show ?thesis by (simp add: teardown_def[of s "fst (teardown s st)"])
qed

lemma offered_ok: "registry_ok (partners offered) (queue offered)"
  unfolding offered_def by (rule run_ok[OF init_ok])

lemma teardown_sjs_result:
  assumes "partners_sjs st s \<noteq> Some []"
  shows "partners_sjs (fst (teardown_sjs s st)) s = None"
    and "s \<notin> set (queue_sjs (fst (teardown_sjs s st)))"
    and "snd (teardown_sjs s st) = (case partners_sjs st s of Some p \<Rightarrow> [Emit p ''partner_left'' NoPayload] | None \<Rightarrow> [])"
  using assms
  by (auto simp: teardown_sjs_def truthy_def unpair_def split: option.splits)

section \<open>Reports\<close>

lemma set_add_member: "x \<in> set xs \<Longrightarrow> set_add x xs = xs"
  by (simp add: set_add_def)

lemma set_add_fresh: "x \<notin> set xs \<Longrightarrow> length (set_add x xs) = Suc (length xs)"
  by (simp add: set_add_def)

lemma set_add_distinct: "distinct xs \<Longrightarrow> distinct (set_add x xs)"
  by (simp add: set_add_def)

lemma set_add_set: "set (set_add x xs) = insert x (set xs)"
  by (auto simp: set_add_def)

text \<open>What the report listener of part\_000 does for a consented, paired reporter.\<close>

lemma on_report_result:
  assumes "isAgreed st s" "partners st s = Some p" "p \<noteq> []"
    "identBySocket st p = Some targetIdent" "targetIdent \<noteq> []"
    "identBySocket st s = Some reporterIdent" "reporterIdent \<noteq> []"
  shows "on_report now s st =
     (let voters = set_add reporterIdent (case reportVotes st targetIdent of Some v \<Rightarrow> v | None \<Rightarrow> []);
          ps = ((partners st)(p := None))(s := None);
          out = [Emit s ''report_received'' NoPayload, Emit p ''partner_left'' NoPayload,
                 Emit s ''partner_left'' NoPayload]
      in if length voters \<ge> 10
         then (st\<lparr>partners := ps, reportVotes := (reportVotes st)(targetIdent := None),
                  tempBans := (tempBans st)(targetIdent \<mapsto> now + 86400000)\<rparr>,
               out @ [Emit p ''reported_and_banned'' NoPayload]
                 @ (if sockets st p \<noteq> None then [Disconnect p] else []))
         else (st\<lparr>partners := ps, reportVotes := (reportVotes st)(targetIdent \<mapsto> voters)\<rparr>, out))"
  using assms
  by (simp add: on_report_def requireAgree_def truthy_def unpair_def emitTo_def Let_def
      REPORT_THRESHOLD_def BAN_MS_def)

text \<open>
  In part\_000 the tally is deduplicated by reporter identity: a reporter already counted
  changes nothing, nine distinct reporters do not ban, the tenth distinct reporter bans the
  target for 24 hours from now and clears the tally.
\<close>

lemma report_tally_part_000:
  assumes "isAgreed st s" "partners st s = Some p" "p \<noteq> []"
    "identBySocket st p = Some targetIdent" "targetIdent \<noteq> []"
    "identBySocket st s = Some reporterIdent" "reporterIdent \<noteq> []"
    "voters = (case reportVotes st targetIdent of Some v \<Rightarrow> v | None \<Rightarrow> [])"
  shows "reporterIdent \<in> set voters \<and> length voters < 10 \<longrightarrow>
           reportVotes (fst (on_report now s st)) targetIdent = Some voters
           \<and> tempBans (fst (on_report now s st)) = tempBans st"
    and "reporterIdent \<notin> set voters \<and> length voters < 9 \<longrightarrow>
           reportVotes (fst (on_report now s st)) targetIdent = Some (voters @ [reporterIdent])
           \<and> tempBans (fst (on_report now s st)) = tempBans st"
    and "reporterIdent \<notin> set voters \<and> length voters = 9 \<longrightarrow>
           reportVotes (fst (on_report now s st)) targetIdent = None
           \<and> tempBans (fst (on_report now s st)) = (tempBans st)(targetIdent \<mapsto> now + 24 * 60 * 60 * 1000)"
  by (simp_all add: on_report_result[OF assms(1-7)] assms(8)[symmetric] set_add_def Let_def)

text \<open>In part\_000 a report always ends the pairing and tells both sides.\<close>

lemma report_teardown_part_000:
  assumes "isAgreed st s" "partners st s = Some p" "p \<noteq> []"
    "identBySocket st p = Some targetIdent" "targetIdent \<noteq> []"
    "identBySocket st s = Some reporterIdent" "reporterIdent \<noteq> []"
  shows "partners (fst (on_report now s st)) s = None \<and> partners (fst (on_report now s st)) p = None
    \<and> Emit p ''partner_left'' NoPayload \<in> set (snd (on_report now s st))
    \<and> Emit s ''partner_left'' NoPayload \<in> set (snd (on_report now s st))"
  by (simp add: on_report_result[OF assms] Let_def)

lemma makeIdent_truthy: "makeIdent hs \<noteq> []"
  by (simp add: makeIdent_def js_def Let_def)

lemma chatting_sjs_live: "sockets_sjs chatting_sjs (js ''A'') = Some conn0"
  by (simp add: chatting_sjs_def waiting_sjs_def names)

text \<open>
  The scenario of the spec in part\_000: nine distinct reporters do not ban, a repeated
  report by a reporter already counted changes nothing, the tenth distinct reporter bans the
  target for 24 hours from the time of the report and clears the tally.
\<close>

lemma run_append: "run (xs @ ys) st = run ys (run xs st)"
  by (induction xs arbitrary: st) simp_all

lemma nine_fields:
  "tempBans nine = Map.empty"
  "reportVotes nine (makeIdent hs0) =
     Some (map (\<lambda>n. makeIdent (hs_of n)) first_nine)"
  "partners nine = Map.empty" "queue nine = []"
  "sockets nine (js ''T'') = Some True" "sockets nine (js ''Rann'') = Some True"
  "sockets nine (js ''Rjon'') = None"
  "identBySocket nine (js ''T'') = Some (makeIdent hs0)"
  "identBySocket nine (js ''Rann'') = Some (makeIdent (hs_of ''ann''))"
  "sockets nine (js ''T2'') = None" "identBySocket nine (js ''T2'') = None"
  by (simp_all add: nine_def nine_run_def first_nine_def report_round_def hs_of_def hs0_def eval_defs makeIdent_def
      getIP_def js_def REPORT_THRESHOLD_def set_add_def)

lemma again_fields:
  "tempBans again = Map.empty"
  "reportVotes again (makeIdent hs0) =
     Some (map (\<lambda>n. makeIdent (hs_of n)) first_nine)"
  "partners again = Map.empty"
proof -
  have ne: "js ''T'' \<noteq> js ''Rann''" "js ''Rann'' \<noteq> js ''T''" "js ''T'' \<noteq> []" "js ''Rann'' \<noteq> []"
    "[] \<noteq> js ''T''" "[] \<noteq> js ''Rann''"
    by (simp_all add: js_def)
  have a: "again = run [(0, Client (js ''T'') Find), (0, Client (js ''Rann'') Find),
     (1000, Client (js ''Rann'') Report)] nine"
    by (simp add: again_def again_run_def nine_def run_append)
  have m: "makeIdent (hs_of ''ann'') \<noteq> []" "makeIdent hs0 \<noteq> []" by (rule makeIdent_truthy)+
  show "tempBans again = Map.empty"
    "reportVotes again (makeIdent hs0) =
     Some (map (\<lambda>n. makeIdent (hs_of n)) first_nine)"
    "partners again = Map.empty"
    unfolding a
    by (simp_all add: nine_fields ne m on_find_def on_report_def requireAgree_def isAgreed_def
        truthy_def pair_def unpair_def emitTo_def set_add_def REPORT_THRESHOLD_def Let_def
        first_nine_def)
qed

lemma ten_fields:
  "tempBans ten (makeIdent hs0) = Some (1000 + 24 * 60 * 60 * 1000)"
  "reportVotes ten (makeIdent hs0) = None"
  "partners ten = Map.empty"
  "sockets ten (js ''T2'') = None" "identBySocket ten (js ''T2'') = None"
proof -
  have ne: "js ''T'' \<noteq> js ''Rjon''" "js ''Rjon'' \<noteq> js ''T''" "js ''T'' \<noteq> []" "js ''Rjon'' \<noteq> []"
    "[] \<noteq> js ''T''" "[] \<noteq> js ''Rjon''" "js ''T2'' \<noteq> js ''Rjon''" "js ''T2'' \<noteq> js ''T''"
    by (simp_all add: js_def)
  have a: "ten = run (report_round ''jon'') nine"
    by (simp add: ten_def ten_run_def nine_def run_append)
  have m: "makeIdent (hs_of ''jon'') \<noteq> []" "makeIdent hs0 \<noteq> []" by (rule makeIdent_truthy)+
  have fresh: "makeIdent (hs_of ''jon'') \<notin>
      set (map (\<lambda>n. makeIdent (hs_of n)) first_nine)"
    by (simp add: first_nine_def makeIdent_def getIP_def hs_of_def truthy_def js_def)
  show "tempBans ten (makeIdent hs0) = Some (1000 + 24 * 60 * 60 * 1000)"
    "reportVotes ten (makeIdent hs0) = None"
    "partners ten = Map.empty"
    "sockets ten (js ''T2'') = None" "identBySocket ten (js ''T2'') = None"
    unfolding a report_round_def
    using fresh
    by (simp_all add: nine_fields ne m on_connection_def on_agree_def isTemporarilyBanned_def
        on_find_def on_report_def requireAgree_def isAgreed_def
        truthy_def pair_def unpair_def emitTo_def set_add_def REPORT_THRESHOLD_def BAN_MS_def Let_def
        first_nine_def)
qed

section \<open>Reachable states of part\_000\<close>

lemma state_ok_partner_truthy:
  assumes "state_ok st" "partners st s = Some p"
  shows "p \<noteq> []" "p \<in> dom (sockets st)" "s \<in> dom (sockets st)"
proof -
  from assms have ok: "registry_ok (partners st) (queue st)" by (simp add: state_ok_def)
  from registry_ok_sym[OF ok assms(2)] have "partners st p = Some s" by simp
  then have "p \<in> dom (partners st)" by blast
  with assms(1) show "p \<in> dom (sockets st)" unfolding state_ok_def by blast
  with assms(1) show "p \<noteq> []" unfolding state_ok_def by blast
  from assms(2) have "s \<in> dom (partners st)" by blast
  with assms(1) show "s \<in> dom (sockets st)" unfolding state_ok_def by blast
qed

lemma state_ok_queue_truthy: "state_ok st \<Longrightarrow> [] \<notin> set (queue st)"
  unfolding state_ok_def by blast

lemma state_ok_idents:
  assumes "state_ok st" "partners st s = Some p"
  shows "\<exists>ti ri. identBySocket st p = Some ti \<and> ti \<noteq> [] \<and> identBySocket st s = Some ri \<and> ri \<noteq> []"
proof -
  from state_ok_partner_truthy[OF assms] assms(1)
  have "p \<in> dom (identBySocket st)" "s \<in> dom (identBySocket st)" unfolding state_ok_def by blast+
  then obtain ti ri where "identBySocket st p = Some ti" "identBySocket st s = Some ri" by blast
  with assms(1) show ?thesis unfolding state_ok_def by blast
qed

text \<open>What each listener may change among the fields that \<open>state_ok\<close> reads.\<close>

lemma teardown_frame:
  "dom (partners (fst (teardown s st))) \<subseteq> dom (partners st)"
  "set (queue (fst (teardown s st))) \<subseteq> set (queue st)"
  "sockets (fst (teardown s st)) = sockets st"
  "identBySocket (fst (teardown s st)) = identBySocket st"
  by (auto simp: teardown_def unpair_def truthy_def split: option.splits if_splits)

lemma on_find_frame:
  assumes "sockets st s \<noteq> None" "set (queue st) \<subseteq> dom (sockets st)"
  shows "dom (partners (fst (on_find s st))) \<subseteq> dom (partners st) \<union> dom (sockets st)"
    and "set (queue (fst (on_find s st))) \<subseteq> dom (sockets st)"
    and "sockets (fst (on_find s st)) = sockets st"
    and "identBySocket (fst (on_find s st)) = identBySocket st"
proof -
  obtain r rest where fl: "find_loop s (partners st) (queue st) = (r, rest)"
    by (cases "find_loop s (partners st) (queue st)")
  have rest: "set rest \<subseteq> set (queue st)" and other: "\<And>other. r = Some other \<Longrightarrow> other \<in> set (queue st)"
    using fl find_loop_Some[of s "partners st" "queue st" _ rest] find_loop_None[of s "partners st" "queue st" rest]
    by (cases r; auto)+
  from assms have sd: "s \<in> dom (sockets st)" by blast
  show "dom (partners (fst (on_find s st))) \<subseteq> dom (partners st) \<union> dom (sockets st)"
    using fl other assms(2) sd
    by (cases r) (auto simp: on_find_def requireAgree_def pair_def split: if_splits)
  show "set (queue (fst (on_find s st))) \<subseteq> dom (sockets st)"
    using fl rest assms(2) sd
    by (cases r) (auto simp: on_find_def requireAgree_def split: if_splits)
  show "sockets (fst (on_find s st)) = sockets st" "identBySocket (fst (on_find s st)) = identBySocket st"
    using fl by (cases r; simp add: on_find_def requireAgree_def)+
qed

lemma on_report_frame:
  "dom (partners (fst (on_report now s st))) \<subseteq> dom (partners st)"
  "queue (fst (on_report now s st)) = queue st"
  "sockets (fst (on_report now s st)) = sockets st"
  "identBySocket (fst (on_report now s st)) = identBySocket st"
  by (auto simp: on_report_def requireAgree_def unpair_def truthy_def Let_def split: option.splits if_splits)

lemma media_frame:
  "identBySocket (fst (on_photo_offer s d st)) = identBySocket st \<and> sockets (fst (on_photo_offer s d st)) = sockets st"
  "identBySocket (fst (on_photo_accept s st)) = identBySocket st \<and> sockets (fst (on_photo_accept s st)) = sockets st"
  "identBySocket (fst (on_photo_decline s st)) = identBySocket st \<and> sockets (fst (on_photo_decline s st)) = sockets st"
  "identBySocket (fst (on_video_offer s d st)) = identBySocket st \<and> sockets (fst (on_video_offer s d st)) = sockets st"
  "identBySocket (fst (on_video_accept s st)) = identBySocket st \<and> sockets (fst (on_video_accept s st)) = sockets st"
  "identBySocket (fst (on_video_decline s st)) = identBySocket st \<and> sockets (fst (on_video_decline s st)) = sockets st"
  by (simp_all add: on_photo_offer_def on_photo_accept_def on_photo_decline_def on_video_offer_def
      on_video_accept_def on_video_decline_def requireAgree_def split: option.splits jsval.splits)

lemma state_okI:
  assumes "registry_ok (partners st) (queue st)"
    "dom (partners st) \<subseteq> dom (sockets st)" "set (queue st) \<subseteq> dom (sockets st)"
    "dom (sockets st) \<subseteq> dom (identBySocket st)" "[] \<notin> dom (sockets st)"
    "\<And>s i. identBySocket st s = Some i \<Longrightarrow> i \<noteq> []"
  shows "state_ok st"
  unfolding state_ok_def using assms by blast

lemma state_ok_parts:
  assumes "state_ok st"
  shows "registry_ok (partners st) (queue st)"
    "dom (partners st) \<subseteq> dom (sockets st)" "set (queue st) \<subseteq> dom (sockets st)"
    "dom (sockets st) \<subseteq> dom (identBySocket st)" "[] \<notin> dom (sockets st)"
    "\<And>s i. identBySocket st s = Some i \<Longrightarrow> i \<noteq> []"
  using assms unfolding state_ok_def by blast+

lemma state_ok_shrink:
  assumes w: "state_ok st" and ok: "registry_ok (partners st') (queue st')"
    and ps: "dom (partners st') \<subseteq> dom (partners st) \<union> dom (sockets st)"
    and q: "set (queue st') \<subseteq> set (queue st) \<union> dom (sockets st)"
    and so: "sockets st' = sockets st" and ids: "identBySocket st' = identBySocket st"
  shows "state_ok st'"
proof (rule state_okI)
  note p = state_ok_parts[OF w]
  show "registry_ok (partners st') (queue st')" by (rule ok)
  show "dom (partners st') \<subseteq> dom (sockets st')" using ps p(2) unfolding so by blast
  show "set (queue st') \<subseteq> dom (sockets st')" using q p(3) unfolding so by blast
  show "dom (sockets st') \<subseteq> dom (identBySocket st')" unfolding so ids by (rule p(4))
  show "[] \<notin> dom (sockets st')" unfolding so by (rule p(5))
  show "\<And>s i. identBySocket st' s = Some i \<Longrightarrow> i \<noteq> []" unfolding ids by (rule p(6))
qed

lemma handle_state_ok:
  assumes w: "state_ok st" and live: "sockets st s \<noteq> None"
  shows "state_ok (fst (handle now s e st))"
proof -
  note p = state_ok_parts[OF w]
  from live have sd: "s \<in> dom (sockets st)" by blast
  have same: "state_ok st'" if "partners st' = partners st \<and> queue st' = queue st"
    "identBySocket st' = identBySocket st \<and> sockets st' = sockets st" for st'
    using that p(1) by (intro state_ok_shrink[OF w]) simp_all
  show ?thesis
  proof (cases e)
    case Agree
    have "dom ((sockets st)(s \<mapsto> True)) = dom (sockets st)" using sd by auto
    with w Agree show ?thesis by (simp add: on_agree_def state_ok_def)
  next
    case Find
    note f = on_find_frame[OF live p(3)]
    have "state_ok (fst (on_find s st))"
      using f(1,2) by (intro state_ok_shrink[OF w on_find_ok[OF p(1)] _ _ f(3) f(4)]) blast+
    with Find show ?thesis by simp
  next
    case Stop
    have st': "fst (on_stop s st) = st \<or> fst (on_stop s st) = fst (teardown s st)"
      by (simp add: on_stop_def requireAgree_def case_prod_beta)
    note f = teardown_frame[of s st]
    have "state_ok (fst (teardown s st))"
      using f(1,2) by (intro state_ok_shrink[OF w teardown_ok[OF p(1)] _ _ f(3) f(4)]) blast+
    with st' w Stop show ?thesis by auto
  next
    case (Message m)
    with w show ?thesis by (simp add: on_message_same)
  next
    case Report
    note f = on_report_frame[of now s st]
    have "state_ok (fst (on_report now s st))"
      using f(1,2) by (intro state_ok_shrink[OF w on_report_ok[OF p(1)] _ _ f(3) f(4)]) auto
    with Report show ?thesis by simp
  next
    case (PhotoOffer d)
    with same[OF on_photo_offer_same media_frame(1)] show ?thesis by simp
  next
    case PhotoAccept
    with same[OF on_photo_accept_same media_frame(2)] show ?thesis by simp
  next
    case PhotoDecline
    with same[OF on_photo_decline_same media_frame(3)] show ?thesis by simp
  next
    case (VideoOffer d)
    with same[OF on_video_offer_same media_frame(4)] show ?thesis by simp
  next
    case VideoAccept
    with same[OF on_video_accept_same media_frame(5)] show ?thesis by simp
  next
    case VideoDecline
    with same[OF on_video_decline_same media_frame(6)] show ?thesis by simp
  qed
qed

lemma on_connection_frame:
  "partners (fst (on_connection now s hs st)) = partners st"
  "queue (fst (on_connection now s hs st)) = queue st"
  "identBySocket (fst (on_connection now s hs st)) = (identBySocket st)(s \<mapsto> makeIdent hs)"
  "sockets (fst (on_connection now s hs st)) = sockets st
   \<or> sockets (fst (on_connection now s hs st)) = (sockets st)(s \<mapsto> False)"
  by (simp_all add: on_connection_def isTemporarilyBanned_def Let_def)

lemma on_connection_state_ok:
  assumes w: "state_ok st" and s: "s \<noteq> []"
  shows "state_ok (fst (on_connection now s hs st))"
proof (rule state_okI)
  note p = state_ok_parts[OF w]
  let ?t = "fst (on_connection now s hs st)"
  note f = on_connection_frame[of now s hs st]
  have sup: "dom (sockets st) \<subseteq> dom (sockets ?t)"
    and sub: "dom (sockets ?t) \<subseteq> insert s (dom (sockets st))"
    using f(4) by (elim disjE; simp add: subset_insertI)+
  have di: "insert s (dom (identBySocket st)) \<subseteq> dom (identBySocket ?t)"
    by (simp add: f(3))
  show "registry_ok (partners ?t) (queue ?t)" unfolding f(1,2) by (rule p(1))
  show "dom (partners ?t) \<subseteq> dom (sockets ?t)" using sup p(2) unfolding f(1) by blast
  show "set (queue ?t) \<subseteq> dom (sockets ?t)" using sup p(3) unfolding f(2) by blast
  show "dom (sockets ?t) \<subseteq> dom (identBySocket ?t)" using sub p(4) di by blast
  show "[] \<notin> dom (sockets ?t)" using sub p(5) s by blast
  show "i \<noteq> []" if "identBySocket ?t x = Some i" for x i
  proof (cases "x = s")
    case True
    with that makeIdent_truthy[of hs] show ?thesis by (simp add: f(3))
  next
    case False
    with that have "identBySocket st x = Some i" by (simp add: f(3))
    then show ?thesis by (rule p(6))
  qed
qed

lemma on_disconnect_state_ok:
  assumes w: "state_ok st"
  shows "state_ok (let (st1, out) = on_disconnect s st in st1\<lparr>sockets := (sockets st1)(s := None)\<rparr>)"
proof -
  note p = state_ok_parts[OF w]
  let ?t = "fst (teardown s st)"
  let ?d = "?t\<lparr>pendingPhotos := (pendingPhotos ?t)(s := None),
              pendingVideos := (pendingVideos ?t)(s := None),
              identBySocket := (identBySocket ?t)(s := None),
              sockets := (sockets ?t)(s := None)\<rparr>"
  have d: "(let (st1, out) = on_disconnect s st in st1\<lparr>sockets := (sockets st1)(s := None)\<rparr>) = ?d"
    by (simp add: on_disconnect_def case_prod_beta)
  have ne: "partners st s \<noteq> Some []"
    using state_ok_partner_truthy(1)[OF w, of s "[]"] by blast
  note f = teardown_frame[of s st] and r = teardown_result[OF ne]
  have "state_ok ?d"
  proof (rule state_okI)
    have ps: "partners ?d = partners ?t" and q: "queue ?d = queue ?t"
      and soe: "dom (sockets ?d) = dom (sockets st) - {s}"
      and ids: "identBySocket ?d = (identBySocket st)(s := None)"
      by (simp_all add: f(3) f(4))
    have die: "dom (identBySocket ?d) = dom (identBySocket st) - {s}" unfolding ids by simp
    have so: "dom (sockets st) - {s} \<subseteq> dom (sockets ?d)" "dom (sockets ?d) \<subseteq> dom (sockets st) - {s}"
      unfolding soe by simp_all
    have di: "dom (identBySocket st) - {s} \<subseteq> dom (identBySocket ?d)" unfolding die by simp
    have sp: "s \<notin> dom (partners ?t)" using r(1) by blast
    show "registry_ok (partners ?d) (queue ?d)" unfolding ps q by (rule teardown_ok[OF p(1)])
    show "dom (partners ?d) \<subseteq> dom (sockets ?d)" using f(1) p(2) sp so(1) unfolding ps by blast
    show "set (queue ?d) \<subseteq> dom (sockets ?d)" using f(2) p(3) r(2) so(1) unfolding q by blast
    show "dom (sockets ?d) \<subseteq> dom (identBySocket ?d)" using p(4) so(2) di by blast
    show "[] \<notin> dom (sockets ?d)" using p(5) so(2) by blast
    show "i \<noteq> []" if "identBySocket ?d x = Some i" for x i
    proof -
      from that have "identBySocket st x = Some i" unfolding ids by (simp split: if_splits)
      then show ?thesis by (rule p(6))
    qed
  qed
  with d show ?thesis by simp
qed

lemma step_state_ok:
  assumes w: "state_ok st" and c: "\<And>s hs. i = Connection s hs \<Longrightarrow> s \<noteq> []"
  shows "state_ok (fst (step (now, i) st))"
proof (cases i)
  case (Connection s hs)
  with on_connection_state_ok[OF w c[OF Connection]] show ?thesis by simp
next
  case (Client s e)
  with w handle_state_ok[OF w, of s now e] show ?thesis by auto
next
  case (Disconnected s)
  with w on_disconnect_state_ok[OF w, of s] show ?thesis by (auto simp: case_prod_beta)
qed

lemma init_state_ok: "state_ok init"
  by (simp add: state_ok_def init_def registry_ok_def)

lemma run_state_ok: "state_ok st \<Longrightarrow> ids_ok evs \<Longrightarrow> state_ok (run evs st)"
proof (induction evs arbitrary: st)
  case Nil
  then show ?case by simp
next
  case (Cons e evs)
  obtain now i where e: "e = (now, i)" by (cases e)
  from Cons.prems(2) have c: "\<And>s hs. i = Connection s hs \<Longrightarrow> s \<noteq> []"
    and rest: "ids_ok evs" unfolding ids_ok_def e by auto
  from Cons.IH[OF step_state_ok[OF Cons.prems(1) c] rest] e show ?case by simp
qed

text \<open>
  In every state reached with non-empty connection ids, the side conditions used below hold:
  no empty id is queued or is anybody's partner, and both ends of a pairing have a
  non-empty identity registered.
\<close>

lemma reachable_side_conditions:
  assumes "ids_ok evs"
  shows "registry_ok (partners (run evs init)) (queue (run evs init))"
    and "[] \<notin> set (queue (run evs init))"
    and "partners (run evs init) s \<noteq> Some []"
    and "partners (run evs init) s = Some p \<Longrightarrow>
           \<exists>ti ri. identBySocket (run evs init) p = Some ti \<and> ti \<noteq> []
             \<and> identBySocket (run evs init) s = Some ri \<and> ri \<noteq> []"
proof -
  note w = run_state_ok[OF init_state_ok assms]
  show "registry_ok (partners (run evs init)) (queue (run evs init))" by (rule state_ok_parts(1)[OF w])
  show "[] \<notin> set (queue (run evs init))" by (rule state_ok_queue_truthy[OF w])
  show "partners (run evs init) s \<noteq> Some []" using state_ok_partner_truthy(1)[OF w, of s "[]"] by blast
  show "partners (run evs init) s = Some p \<Longrightarrow>
           \<exists>ti ri. identBySocket (run evs init) p = Some ti \<and> ti \<noteq> []
             \<and> identBySocket (run evs init) s = Some ri \<and> ri \<noteq> []"
    by (rule state_ok_idents[OF w])
qed

section \<open>Tallies and reports in reachable states of part\_000\<close>

lemma on_report_votes:
  "reportVotes (fst (on_report now s st)) = reportVotes st
   \<or> (\<exists>ti ri. let voters = set_add ri (case reportVotes st ti of Some v \<Rightarrow> v | None \<Rightarrow> []) in
         reportVotes (fst (on_report now s st)) =
           (if length voters \<ge> REPORT_THRESHOLD then (reportVotes st)(ti := None)
            else (reportVotes st)(ti \<mapsto> voters)))"
proof (cases "isAgreed st s")
  case False
  then show ?thesis by (simp add: on_report_def requireAgree_def)
next
  case True
  show ?thesis
  proof (cases "truthy (partners st s)")
    case None
    with True show ?thesis by (simp add: on_report_def requireAgree_def)
  next
    case (Some p)
    show ?thesis
    proof (cases "truthy (identBySocket st p)")
      case None
      with True Some show ?thesis by (simp add: on_report_def requireAgree_def)
    next
      case ti: (Some ti)
      show ?thesis
      proof (cases "truthy (identBySocket st s)")
        case None
        with True Some ti show ?thesis by (simp add: on_report_def requireAgree_def)
      next
        case ri: (Some ri)
        have "let voters = set_add ri (case reportVotes st ti of Some v \<Rightarrow> v | None \<Rightarrow> []) in
         reportVotes (fst (on_report now s st)) =
           (if length voters \<ge> REPORT_THRESHOLD then (reportVotes st)(ti := None)
            else (reportVotes st)(ti \<mapsto> voters))"
          using True Some ti ri by (simp add: on_report_def requireAgree_def Let_def)
        then show ?thesis by blast
      qed
    qed
  qed
qed

lemma on_report_tally_ok:
  assumes "tally_ok st"
  shows "tally_ok (fst (on_report now s st))"
proof -
  from on_report_votes[of now s st] show ?thesis
  proof
    assume "reportVotes (fst (on_report now s st)) = reportVotes st"
    with assms show ?thesis by (simp add: tally_ok_def)
  next
    assume "\<exists>ti ri. let voters = set_add ri (case reportVotes st ti of Some v \<Rightarrow> v | None \<Rightarrow> []) in
         reportVotes (fst (on_report now s st)) =
           (if length voters \<ge> REPORT_THRESHOLD then (reportVotes st)(ti := None)
            else (reportVotes st)(ti \<mapsto> voters))"
    then obtain ti ri where e: "reportVotes (fst (on_report now s st)) =
           (if length (set_add ri (case reportVotes st ti of Some v \<Rightarrow> v | None \<Rightarrow> [])) \<ge> REPORT_THRESHOLD
            then (reportVotes st)(ti := None)
            else (reportVotes st)(ti \<mapsto> set_add ri (case reportVotes st ti of Some v \<Rightarrow> v | None \<Rightarrow> [])))"
      unfolding Let_def by blast
    have d: "distinct (case reportVotes st ti of Some v \<Rightarrow> v | None \<Rightarrow> [])"
      using assms by (auto simp: tally_ok_def split: option.splits)
    show ?thesis
      unfolding tally_ok_def e using assms set_add_distinct[OF d, of ri]
      by (auto simp: tally_ok_def split: if_splits)
  qed
qed

lemma tally_frame:
  "reportVotes (fst (on_connection now s hs st)) = reportVotes st"
  "reportVotes (fst (on_agree s st)) = reportVotes st"
  "reportVotes (fst (on_find s st)) = reportVotes st"
  "reportVotes (fst (teardown s st)) = reportVotes st"
  "reportVotes (fst (on_photo_offer s d st)) = reportVotes st"
  "reportVotes (fst (on_photo_accept s st)) = reportVotes st"
  "reportVotes (fst (on_photo_decline s st)) = reportVotes st"
  "reportVotes (fst (on_video_offer s d st)) = reportVotes st"
  "reportVotes (fst (on_video_accept s st)) = reportVotes st"
  "reportVotes (fst (on_video_decline s st)) = reportVotes st"
  by (simp_all add: on_connection_def isTemporarilyBanned_def on_agree_def on_find_def teardown_def
      on_photo_offer_def on_photo_accept_def on_photo_decline_def on_video_offer_def
      on_video_accept_def on_video_decline_def requireAgree_def Let_def
      split: option.splits jsval.splits prod.splits)

lemma step_tally_ok:
  assumes "tally_ok st"
  shows "tally_ok (fst (step i st))"
proof (cases i)
  case (Pair now inp)
  show ?thesis
  proof (cases inp)
    case (Connection s hs)
    with Pair assms show ?thesis by (simp add: tally_ok_def tally_frame)
  next
    case (Disconnected s)
    with Pair assms show ?thesis
      by (simp add: tally_ok_def on_disconnect_def case_prod_beta tally_frame)
  next
    case (Client s e)
    with Pair assms on_report_tally_ok[OF assms, of now s] show ?thesis
      by (cases e)
         (simp_all add: tally_ok_def tally_frame on_message_same on_stop_def requireAgree_def case_prod_beta)
  qed
qed

lemma run_tally_ok: "tally_ok st \<Longrightarrow> tally_ok (run evs st)"
  by (induction evs arbitrary: st) (simp_all add: step_tally_ok)

text \<open>
  In every reachable state of part\_000 a tally lists each reporter identity once and holds
  fewer than ten of them.
\<close>

lemma reachable_tally: "reportVotes (run evs init) ti = Some v \<Longrightarrow> distinct v \<and> length v < 10"
proof -
  have "tally_ok init" by (simp add: tally_ok_def init_def)
  from run_tally_ok[OF this, of evs] show "reportVotes (run evs init) ti = Some v \<Longrightarrow> distinct v \<and> length v < 10"
    unfolding tally_ok_def REPORT_THRESHOLD_def by blast
qed

text \<open>
  In every state of part\_000 reached with non-empty connection ids, a report by a consented,
  paired connection ends the pairing on both sides and tells both.
\<close>

lemma report_teardown_reachable_part_000:
  assumes "ids_ok evs" "isAgreed (run evs init) s" "partners (run evs init) s = Some p"
  shows "partners (fst (on_report now s (run evs init))) s = None
    \<and> partners (fst (on_report now s (run evs init))) p = None
    \<and> Emit p ''partner_left'' NoPayload \<in> set (snd (on_report now s (run evs init)))
    \<and> Emit s ''partner_left'' NoPayload \<in> set (snd (on_report now s (run evs init)))"
proof -
  note c = reachable_side_conditions[OF assms(1)]
  from c(4)[OF assms(3)] obtain ti ri where i: "identBySocket (run evs init) p = Some ti" "ti \<noteq> []"
    "identBySocket (run evs init) s = Some ri" "ri \<noteq> []" by blast
  from c(3)[of p] state_ok_partner_truthy(1)[OF run_state_ok[OF init_state_ok assms(1)] assms(3)]
  have "p \<noteq> []" by blast
  from report_teardown_part_000[OF assms(2) assms(3) this i] show ?thesis .
qed

section \<open>What next does in server.js\<close>

text \<open>
  For a consented connection, next leaves the state that stop leaves, with the id in neither
  the queue nor the registry, and emits the partner's notice, then "searching" and "find" to
  the caller.
\<close>

lemma next_is_stop_plus_notices:
  "isAgreed_sjs t u \<and> partners_sjs t u \<noteq> Some [] \<longrightarrow>
     (let t' = fst (on_next_sjs u t) in
        t' = fst (on_stop_sjs u t) \<and> partners_sjs t' u = None \<and> u \<notin> set (queue_sjs t')
      \<and> snd (on_next_sjs u t) =
           (case partners_sjs t u of Some p \<Rightarrow> [Emit p ''partner_left'' NoPayload] | None \<Rightarrow> [])
             @ [Emit u ''searching'' NoPayload, Emit u ''find'' NoPayload])"
proof
  assume h: "isAgreed_sjs t u \<and> partners_sjs t u \<noteq> Some []"
  then have ne: "partners_sjs t u \<noteq> Some []" and ag: "isAgreed_sjs t u" by simp_all
  have n: "fst (on_next_sjs u t) = fst (teardown_sjs u t)"
    and s: "fst (on_stop_sjs u t) = fst (teardown_sjs u t)"
    and out: "snd (on_next_sjs u t) = snd (teardown_sjs u t) @ [Emit u ''searching'' NoPayload, Emit u ''find'' NoPayload]"
    using ag by (simp_all add: on_next_sjs_def on_stop_sjs_def requireAgree_sjs_def case_prod_beta)
  show "let t' = fst (on_next_sjs u t) in
        t' = fst (on_stop_sjs u t) \<and> partners_sjs t' u = None \<and> u \<notin> set (queue_sjs t')
      \<and> snd (on_next_sjs u t) =
           (case partners_sjs t u of Some p \<Rightarrow> [Emit p ''partner_left'' NoPayload] | None \<Rightarrow> [])
             @ [Emit u ''searching'' NoPayload, Emit u ''find'' NoPayload]"
    unfolding Let_def n s out using teardown_sjs_result[OF ne] by simp
qed

lemma next_is_stop_plus_notices_example:
  "isAgreed_sjs chatting_sjs (js ''A'') \<and> partners_sjs chatting_sjs (js ''A'') = Some (js ''B'')
   \<and> snd (on_next_sjs (js ''A'') chatting_sjs)
        = [Emit (js ''B'') ''partner_left'' NoPayload, Emit (js ''A'') ''searching'' NoPayload,
           Emit (js ''A'') ''find'' NoPayload]
   \<and> fst (on_next_sjs (js ''A'') chatting_sjs) = fst (on_stop_sjs (js ''A'') chatting_sjs)"
  using next_is_stop_plus_notices[of chatting_sjs "js ''A''"]
  by (simp add: chatting_sjs_fields names Let_def)

section \<open>Claims\<close>

text \<open>
  C1. After every operation, from the initial state on, the registry and the queue are
  consistent: a connection id is a key of the partner registry exactly when its partner's
  entry maps back to it, no id is its own partner, no id is both paired and queued, and no id
  is queued twice. This holds for every sequence of inputs in either revision (connection,
  agree, find, stop, next, message, report, photo and video offer, accept and decline,
  disconnect); in server.js a run ends at the first uncaught error.
\<close>

theorem registry_invariant:
  "registry_ok (partners (run evs init)) (queue (run evs init))
   \<and> (\<forall>st'. run_sjs evs' init_sjs = Inr st' \<longrightarrow> registry_ok (partners_sjs st') (queue_sjs st'))"
  using run_ok[OF init_ok, of evs] run_sjs_ok[OF init_sjs_ok, of evs'] by blast

theorem registry_invariant_witness:
  "registry_ok (partners chatting3) (queue chatting3)
   \<and> partners chatting3 (js ''A'') = Some (js ''B'') \<and> partners chatting3 (js ''B'') = Some (js ''A'')
   \<and> queue chatting3 = [js ''C''] \<and> partners chatting3 (js ''C'') = None
   \<and> run_sjs chatting_sjs_run init_sjs = Inr chatting_sjs
   \<and> registry_ok (partners_sjs chatting_sjs) (queue_sjs chatting_sjs)
   \<and> partners_sjs chatting_sjs (js ''A'') = Some (js ''B'')"
  using registry_invariant[of chatting3_run chatting_sjs_run]
  by (simp add: chatting3_def[symmetric] chatting_sjs_reached chatting3_fields chatting_sjs_fields names)

text \<open>
  C2. For a consented connection id that is neither paired nor queued, find drops from the
  front of the queue the entries that are the id itself or already paired, pairs the id with
  the first entry left and emits "matched" to both; when nothing is left it queues the id
  and emits "searching". Afterwards the id is either paired or queued, never both and never
  neither. If the id was already paired or queued, find changes nothing and emits nothing.
  (In part\_000 the loop also passes over an empty id; connection ids are never empty.)
\<close>

theorem find_pairs_first_available:
  "(isAgreed st s \<and> [] \<notin> set (queue st) \<longrightarrow>
      (partners st s = None \<and> s \<notin> set (queue st) \<longrightarrow>
         on_find s st =
           (case first_available s (partners st) (queue st) of
              [] \<Rightarrow> (st\<lparr>queue := [s]\<rparr>, [Emit s ''searching'' NoPayload])
            | other # rest \<Rightarrow>
                (st\<lparr>queue := rest, partners := ((partners st)(s \<mapsto> other))(other \<mapsto> s)\<rparr>,
                 [Emit s ''matched'' NoPayload, Emit other ''matched'' NoPayload]))
         \<and> (partners (fst (on_find s st)) s \<noteq> None) \<noteq> (s \<in> set (queue (fst (on_find s st)))))
      \<and> (partners st s \<noteq> None \<or> s \<in> set (queue st) \<longrightarrow> on_find s st = (st, [])))
   \<and> (isAgreed_sjs t u \<longrightarrow>
      (partners_sjs t u = None \<and> u \<notin> set (queue_sjs t) \<longrightarrow>
         on_find_sjs u t =
           (case first_available u (partners_sjs t) (queue_sjs t) of
              [] \<Rightarrow> (t\<lparr>queue_sjs := [u]\<rparr>, [Emit u ''searching'' NoPayload])
            | other # rest \<Rightarrow>
                (t\<lparr>queue_sjs := rest, partners_sjs := ((partners_sjs t)(u \<mapsto> other))(other \<mapsto> u)\<rparr>,
                 [Emit u ''matched'' NoPayload, Emit other ''matched'' NoPayload]))
         \<and> (partners_sjs (fst (on_find_sjs u t)) u \<noteq> None) \<noteq> (u \<in> set (queue_sjs (fst (on_find_sjs u t)))))
      \<and> (partners_sjs t u \<noteq> None \<or> u \<in> set (queue_sjs t) \<longrightarrow> on_find_sjs u t = (t, [])))"
proof (intro conjI impI)
  assume "isAgreed st s \<and> [] \<notin> set (queue st)" "partners st s = None \<and> s \<notin> set (queue st)"
  then show "on_find s st =
           (case first_available s (partners st) (queue st) of
              [] \<Rightarrow> (st\<lparr>queue := [s]\<rparr>, [Emit s ''searching'' NoPayload])
            | other # rest \<Rightarrow>
                (st\<lparr>queue := rest, partners := ((partners st)(s \<mapsto> other))(other \<mapsto> s)\<rparr>,
                 [Emit s ''matched'' NoPayload, Emit other ''matched'' NoPayload]))"
    using on_find_result[of st s] by blast
next
  assume "isAgreed st s \<and> [] \<notin> set (queue st)" "partners st s = None \<and> s \<notin> set (queue st)"
  then show "(partners (fst (on_find s st)) s \<noteq> None) \<noteq> (s \<in> set (queue (fst (on_find s st))))"
    using on_find_exactly_one[of st s] by blast
next
  assume "isAgreed st s \<and> [] \<notin> set (queue st)" "partners st s \<noteq> None \<or> s \<in> set (queue st)"
  then show "on_find s st = (st, [])"
    using on_find_noop[of st s] by blast
next
  assume "isAgreed_sjs t u" "partners_sjs t u = None \<and> u \<notin> set (queue_sjs t)"
  then show "on_find_sjs u t =
           (case first_available u (partners_sjs t) (queue_sjs t) of
              [] \<Rightarrow> (t\<lparr>queue_sjs := [u]\<rparr>, [Emit u ''searching'' NoPayload])
            | other # rest \<Rightarrow>
                (t\<lparr>queue_sjs := rest, partners_sjs := ((partners_sjs t)(u \<mapsto> other))(other \<mapsto> u)\<rparr>,
                 [Emit u ''matched'' NoPayload, Emit other ''matched'' NoPayload]))"
    using on_find_sjs_result[of t u] by blast
next
  assume "isAgreed_sjs t u" "partners_sjs t u = None \<and> u \<notin> set (queue_sjs t)"
  then show "(partners_sjs (fst (on_find_sjs u t)) u \<noteq> None) \<noteq> (u \<in> set (queue_sjs (fst (on_find_sjs u t))))"
    using on_find_sjs_exactly_one[of t u] by blast
next
  assume "isAgreed_sjs t u" "partners_sjs t u \<noteq> None \<or> u \<in> set (queue_sjs t)"
  then show "on_find_sjs u t = (t, [])"
    using on_find_sjs_noop[of t u] by blast
qed

theorem find_pairs_first_available_witness:
  "isAgreed waiting (js ''B'') \<and> [] \<notin> set (queue waiting)
   \<and> partners waiting (js ''B'') = None \<and> js ''B'' \<notin> set (queue waiting)
   \<and> on_find (js ''B'') waiting =
        (waiting\<lparr>queue := [], partners := [js ''B'' \<mapsto> js ''A'', js ''A'' \<mapsto> js ''B'']\<rparr>,
         [Emit (js ''B'') ''matched'' NoPayload, Emit (js ''A'') ''matched'' NoPayload])
   \<and> isAgreed waiting (js ''A'') \<and> js ''A'' \<in> set (queue waiting)
   \<and> on_find (js ''A'') waiting = (waiting, [])
   \<and> isAgreed_sjs waiting_sjs (js ''B'')
   \<and> partners_sjs waiting_sjs (js ''B'') = None \<and> js ''B'' \<notin> set (queue_sjs waiting_sjs)
   \<and> on_find_sjs (js ''B'') waiting_sjs =
        (waiting_sjs\<lparr>queue_sjs := [], partners_sjs := [js ''B'' \<mapsto> js ''A'', js ''A'' \<mapsto> js ''B'']\<rparr>,
         [Emit (js ''B'') ''matched'' NoPayload, Emit (js ''A'') ''matched'' NoPayload])
   \<and> isAgreed_sjs waiting_sjs (js ''A'') \<and> js ''A'' \<in> set (queue_sjs waiting_sjs)
   \<and> on_find_sjs (js ''A'') waiting_sjs = (waiting_sjs, [])"
  using find_pairs_first_available[of waiting "js ''B''" waiting_sjs "js ''B''"]
    find_pairs_first_available[of waiting "js ''A''" waiting_sjs "js ''A''"]
  by (simp add: waiting_fields waiting_sjs_fields isAgreed_def names first_available_def)

text \<open>
  C3. Report tallies are deduplicated by reporter identity: nine reports from nine distinct
  reporter identities do not ban, the tenth distinct reporter bans the target until now + 24
  hours and clears the tally, and a repeated report from a reporter already counted never
  raises the tally. part\_000 does this (\<open>report_tally_part_000\<close>). In server.js the
  report listener of a consented, paired connection throws at its first use of
  \<open>reportCounts\<close>: no tally is kept and no ban is ever set.
\<close>

theorem report_sjs_reference_error:
  "run_sjs (chatting_sjs_run @ [Client_sjs (js ''A'') Report_sjs]) init_sjs
     = Inl (ReferenceError ''reportCounts'')"
proof -
  have app: "run_sjs (xs @ ys) st = (case run_sjs xs st of Inl e \<Rightarrow> Inl e | Inr st1 \<Rightarrow> run_sjs ys st1)"
    for xs ys st
    by (induction xs arbitrary: st) (simp_all split: sum.splits)
  show ?thesis
    by (simp add: app chatting_sjs_reached chatting_sjs_fields chatting_sjs_live on_report_sjs_def
        requireAgree_sjs_def truthy_def names makeIdent_truthy)
qed

text \<open>
  C4. A report by a consented, paired connection tears the pairing down at once, in both
  directions, and notifies both sides, whatever the tally. part\_000 does this
  (\<open>report_teardown_part_000\<close>). In server.js the listener throws before it unpairs
  or notifies anyone, and the pairing stays in the registry.
\<close>

theorem report_sjs_no_teardown:
  "run_sjs chatting_sjs_run init_sjs = Inr chatting_sjs
   \<and> isAgreed_sjs chatting_sjs (js ''A'') \<and> partners_sjs chatting_sjs (js ''A'') = Some (js ''B'')
   \<and> on_report_sjs (js ''A'') chatting_sjs = Inl (ReferenceError ''reportCounts'')"
  by (simp add: chatting_sjs_reached chatting_sjs_fields on_report_sjs_def requireAgree_sjs_def
      truthy_def names makeIdent_truthy)

text \<open>
  C5, as amended. On connect the identity mapping is registered first. The ban check then
  runs before consent is reset or any listener is registered: if the identity has an
  unexpired ban (part\_000) or is in the ban set (server.js), "banned" is emitted and the
  connection is closed, and nothing but the identity mapping has changed; if a ban entry
  exists but has expired, it is purged on that check and the connection proceeds as usual.
\<close>

theorem ban_check_on_connect:
  "(\<forall>until. tempBans st (makeIdent hs) = Some until \<and> now < until \<longrightarrow>
       on_connection now s hs st =
         (st\<lparr>identBySocket := (identBySocket st)(s \<mapsto> makeIdent hs)\<rparr>,
          [Emit s ''banned'' NoPayload, Disconnect s]))
   \<and> (\<forall>until. tempBans st (makeIdent hs) = Some until \<and> \<not> now < until \<and> until \<noteq> 0 \<longrightarrow>
       on_connection now s hs st =
         (st\<lparr>identBySocket := (identBySocket st)(s \<mapsto> makeIdent hs),
             tempBans := (tempBans st)(makeIdent hs := None),
             sockets := (sockets st)(s \<mapsto> False)\<rparr>,
          [Emit s ''need_agree'' NoPayload]))
   \<and> (makeIdent hs \<in> bannedIdents t \<longrightarrow>
       on_connection_sjs u hs t =
         (t\<lparr>identBySocket_sjs := (identBySocket_sjs t)(u \<mapsto> makeIdent hs)\<rparr>,
          [Emit u ''banned'' NoPayload, Disconnect u]))"
  by (simp add: on_connection_def isTemporarilyBanned_def on_connection_sjs_def Let_def)

text \<open>
  The claim as stated fails: in \<open>ten\<close> the identity of \<open>hs0\<close> is banned until 86401000;
  when it connects again at 2000 as T2, it is refused, and its identity mapping is registered
  all the same.
\<close>

theorem banned_connect_registers_identity:
  "tempBans ten (makeIdent hs0) = Some 86401000
   \<and> identBySocket ten (js ''T2'') = None
   \<and> snd (on_connection 2000 (js ''T2'') hs0 ten)
        = [Emit (js ''T2'') ''banned'' NoPayload, Disconnect (js ''T2'')]
   \<and> identBySocket (fst (on_connection 2000 (js ''T2'') hs0 ten)) (js ''T2'') = Some (makeIdent hs0)"
  by (simp add: ten_fields on_connection_def isTemporarilyBanned_def Let_def)

theorem ban_check_on_connect_witness:
  "tempBans ten (makeIdent hs0) = Some 86401000
   \<and> on_connection 2000 (js ''T2'') hs0 ten =
       (ten\<lparr>identBySocket := (identBySocket ten)(js ''T2'' \<mapsto> makeIdent hs0)\<rparr>,
        [Emit (js ''T2'') ''banned'' NoPayload, Disconnect (js ''T2'')])
   \<and> sockets (fst (on_connection 2000 (js ''T2'') hs0 ten)) (js ''T2'') = None
   \<and> tempBans (fst (on_connection 86401000 (js ''T2'') hs0 ten)) (makeIdent hs0) = None
   \<and> sockets (fst (on_connection 86401000 (js ''T2'') hs0 ten)) (js ''T2'') = Some False
   \<and> snd (on_connection 86401000 (js ''T2'') hs0 ten) = [Emit (js ''T2'') ''need_agree'' NoPayload]
   \<and> makeIdent hs0 \<in> bannedIdents (init_sjs\<lparr>bannedIdents := {makeIdent hs0}\<rparr>)
   \<and> snd (on_connection_sjs (js ''T2'') hs0 (init_sjs\<lparr>bannedIdents := {makeIdent hs0}\<rparr>))
        = [Emit (js ''T2'') ''banned'' NoPayload, Disconnect (js ''T2'')]"
  using ban_check_on_connect[of ten hs0 2000 "js ''T2''" "init_sjs\<lparr>bannedIdents := {makeIdent hs0}\<rparr>" "js ''T2''"]
    ban_check_on_connect[of ten hs0 86401000 "js ''T2''" "init_sjs\<lparr>bannedIdents := {makeIdent hs0}\<rparr>" "js ''T2''"]
  by (simp add: ten_fields)

text \<open>
  C6, as amended. After stop (for a consented connection) or disconnect of an id whose
  registry is consistent: the id is in neither the queue nor the partner registry, its former
  partner, if any, is sent "partner\_left" exactly once, and running the same teardown again
  changes nothing and notifies no partner. Disconnect also removes the pending photo and
  video offers keyed by the id; stop leaves the pending offers as they are.
\<close>

theorem stop_and_disconnect_teardown:
  "registry_ok (partners st) (queue st) \<and> partners st s \<noteq> Some [] \<longrightarrow>
    (isAgreed st s \<longrightarrow>
       (let st' = fst (on_stop s st) in
          partners st' s = None \<and> (\<forall>x. partners st' x \<noteq> Some s) \<and> s \<notin> set (queue st')
        \<and> snd (on_stop s st) =
             (case partners st s of Some p \<Rightarrow> [Emit p ''partner_left'' NoPayload] | None \<Rightarrow> [])
               @ [Emit s ''stopped'' NoPayload]
        \<and> pendingPhotos st' = pendingPhotos st \<and> pendingVideos st' = pendingVideos st
        \<and> on_stop s st' = (st', [Emit s ''stopped'' NoPayload])))
  \<and> (let st' = fst (on_disconnect s st) in
          partners st' s = None \<and> (\<forall>x. partners st' x \<noteq> Some s) \<and> s \<notin> set (queue st')
        \<and> snd (on_disconnect s st) =
             (case partners st s of Some p \<Rightarrow> [Emit p ''partner_left'' NoPayload] | None \<Rightarrow> [])
        \<and> pendingPhotos st' = (pendingPhotos st)(s := None)
        \<and> pendingVideos st' = (pendingVideos st)(s := None)
        \<and> on_disconnect s st' = (st', []))"
proof (intro impI conjI)
  assume h: "registry_ok (partners st) (queue st) \<and> partners st s \<noteq> Some []"
  then have ok: "registry_ok (partners st) (queue st)" and ne: "partners st s \<noteq> Some []" by simp_all
  note r = teardown_result[OF ne] and g = teardown_gone[OF ok ne] and a = teardown_again[OF ne]
    and p = teardown_pending[of s st]
  {
    assume ag: "isAgreed st s"
    have st': "fst (on_stop s st) = fst (teardown s st)"
      using ag by (simp add: on_stop_def requireAgree_def case_prod_beta)
    have ag': "isAgreed (fst (teardown s st)) s" using ag p by (simp add: isAgreed_def)
    have out: "snd (on_stop s st) = snd (teardown s st) @ [Emit s ''stopped'' NoPayload]"
      using ag by (simp add: on_stop_def requireAgree_def case_prod_beta)
    have again: "on_stop s (fst (teardown s st)) = (fst (teardown s st), [Emit s ''stopped'' NoPayload])"
      using ag' a by (simp add: on_stop_def requireAgree_def)
    show "let st' = fst (on_stop s st) in
          partners st' s = None \<and> (\<forall>x. partners st' x \<noteq> Some s) \<and> s \<notin> set (queue st')
        \<and> snd (on_stop s st) =
             (case partners st s of Some p \<Rightarrow> [Emit p ''partner_left'' NoPayload] | None \<Rightarrow> [])
               @ [Emit s ''stopped'' NoPayload]
        \<and> pendingPhotos st' = pendingPhotos st \<and> pendingVideos st' = pendingVideos st
        \<and> on_stop s st' = (st', [Emit s ''stopped'' NoPayload])"
      unfolding Let_def st' out using r(1,2,3) g p again by simp
  }
  let ?t = "fst (teardown s st)"
  let ?d = "fst (on_disconnect s st)"
  have d: "?d = ?t\<lparr>pendingPhotos := (pendingPhotos ?t)(s := None),
              pendingVideos := (pendingVideos ?t)(s := None),
              identBySocket := (identBySocket ?t)(s := None)\<rparr>"
    and dout: "snd (on_disconnect s st) = snd (teardown s st)"
    by (simp_all add: on_disconnect_def case_prod_beta)
  have pq: "partners ?d = partners ?t" "queue ?d = queue ?t" by (simp_all add: d)
  have td: "teardown s ?d = (?d, [])"
  proof -
    from r(1) pq have "truthy (partners ?d s) = None" by (simp add: truthy_def)
    moreover have "filter (\<lambda>i. i \<noteq> s) (queue ?d) = queue ?d"
      unfolding pq by (simp add: teardown_def split: option.splits)
    ultimately show ?thesis by (simp add: teardown_def[of s ?d])
  qed
  have again: "on_disconnect s ?d = (?d, [])"
    unfolding on_disconnect_def[of s ?d] td by (simp add: d)
  show "let st' = fst (on_disconnect s st) in
          partners st' s = None \<and> (\<forall>x. partners st' x \<noteq> Some s) \<and> s \<notin> set (queue st')
        \<and> snd (on_disconnect s st) =
             (case partners st s of Some p \<Rightarrow> [Emit p ''partner_left'' NoPayload] | None \<Rightarrow> [])
        \<and> pendingPhotos st' = (pendingPhotos st)(s := None)
        \<and> pendingVideos st' = (pendingVideos st)(s := None)
        \<and> on_disconnect s st' = (st', [])"
    unfolding Let_def again dout pq using r(1,2,3) g p by (simp add: d)
qed

text \<open>
  The claim as stated fails: after B's stop, the photo offer waiting for B is still stored.
\<close>

theorem stop_keeps_pending_offer:
  "isAgreed offered (js ''B'')
   \<and> pendingPhotos offered (js ''B'') = Some \<lparr>fromSocketId = js ''A'', dataUrl = png\<rparr>
   \<and> pendingPhotos (fst (on_stop (js ''B'') offered)) (js ''B'')
        = Some \<lparr>fromSocketId = js ''A'', dataUrl = png\<rparr>"
  by (simp add: offered_fields eval_defs names)

theorem stop_and_disconnect_teardown_witness:
  "registry_ok (partners offered) (queue offered) \<and> partners offered (js ''B'') = Some (js ''A'')
   \<and> isAgreed offered (js ''B'')
   \<and> snd (on_stop (js ''B'') offered)
        = [Emit (js ''A'') ''partner_left'' NoPayload, Emit (js ''B'') ''stopped'' NoPayload]
   \<and> partners (fst (on_stop (js ''B'') offered)) (js ''B'') = None
   \<and> pendingPhotos (fst (on_stop (js ''B'') offered)) = pendingPhotos offered
   \<and> snd (on_disconnect (js ''B'') offered) = [Emit (js ''A'') ''partner_left'' NoPayload]
   \<and> partners (fst (on_disconnect (js ''B'') offered)) (js ''B'') = None
   \<and> pendingPhotos (fst (on_disconnect (js ''B'') offered)) (js ''B'') = None"
  using stop_and_disconnect_teardown[of offered "js ''B''"] offered_ok
  by (simp add: offered_fields isAgreed_def names Let_def)

text \<open>
  C7. A second photo or video offer to the same receiver, made before the first is accepted
  or declined, replaces the first: the receiver has one stored offer, the latest. An accept by
  the receiver then removes the stored offer and delivers the payload of the second offer.
\<close>

theorem second_offer_replaces_first:
  "(isAgreed st s \<and> partners st s = Some r \<and> r \<noteq> [] \<and> isAgreed st r
      \<and> startsWith d1 (js ''data:image/'') \<and> startsWith d2 (js ''data:image/'') \<longrightarrow>
      (let st1 = fst (on_photo_offer s (JString d1) st);
           st2 = fst (on_photo_offer s (JString d2) st1)
       in pendingPhotos st1 r = Some \<lparr>fromSocketId = s, dataUrl = d1\<rparr>
          \<and> pendingPhotos st2 = (pendingPhotos st)(r \<mapsto> \<lparr>fromSocketId = s, dataUrl = d2\<rparr>)
          \<and> on_photo_accept r st2 =
               (st2\<lparr>pendingPhotos := (pendingPhotos st2)(r := None)\<rparr>,
                [Emit r ''photo_deliver'' (DataUrlObj d2)]
                  @ emitTo s ''message'' (Text photo_accepted))))
   \<and> (isAgreed st s \<and> partners st s = Some r \<and> r \<noteq> [] \<and> isAgreed st r
      \<and> startsWith v1 (js ''data:video/'') \<and> startsWith v2 (js ''data:video/'') \<longrightarrow>
      (let st1 = fst (on_video_offer s (JString v1) st);
           st2 = fst (on_video_offer s (JString v2) st1)
       in pendingVideos st1 r = Some \<lparr>fromSocketId = s, dataUrl = v1\<rparr>
          \<and> pendingVideos st2 = (pendingVideos st)(r \<mapsto> \<lparr>fromSocketId = s, dataUrl = v2\<rparr>)
          \<and> on_video_accept r st2 =
               (st2\<lparr>pendingVideos := (pendingVideos st2)(r := None)\<rparr>,
                [Emit r ''video_deliver'' (DataUrlObj v2)]
                  @ emitTo s ''message'' (Text video_accepted))))"
  by (simp add: on_photo_offer_def on_photo_accept_def on_video_offer_def on_video_accept_def
      requireAgree_def isAgreed_def truthy_def Let_def)

theorem second_offer_replaces_first_witness:
  "isAgreed chatting (js ''A'') \<and> partners chatting (js ''A'') = Some (js ''B'') \<and> js ''B'' \<noteq> []
   \<and> isAgreed chatting (js ''B'')
   \<and> startsWith png (js ''data:image/'') \<and> startsWith png2 (js ''data:image/'')
   \<and> startsWith mp4 (js ''data:video/'') \<and> startsWith mp42 (js ''data:video/'')
   \<and> png \<noteq> png2
   \<and> snd (on_photo_accept (js ''B'')
         (fst (on_photo_offer (js ''A'') (JString png2)
            (fst (on_photo_offer (js ''A'') (JString png) chatting)))))
       = [Emit (js ''B'') ''photo_deliver'' (DataUrlObj png2),
          Emit (js ''A'') ''message'' (Text photo_accepted)]
   \<and> snd (on_video_accept (js ''B'')
         (fst (on_video_offer (js ''A'') (JString mp42)
            (fst (on_video_offer (js ''A'') (JString mp4) chatting)))))
       = [Emit (js ''B'') ''video_deliver'' (DataUrlObj mp42),
          Emit (js ''A'') ''message'' (Text video_accepted)]"
proof -
  have ne: "png \<noteq> png2" by (simp add: png_def png2_def js_def)
  show ?thesis
    using second_offer_replaces_first[of chatting "js ''A''" "js ''B''" png png2 mp4 mp42]
    by (simp add: chatting_fields isAgreed_def names media ne Let_def emitTo_def)
qed

text \<open>
  C8. For a consented connection, a message that is not a string, or that is empty after
  trimming, is dropped: no state change and nothing emitted. Otherwise, if the sender is
  paired, the trimmed text is sent to the partner and to nobody else; if the sender is
  unpaired nothing happens. Both revisions agree.
\<close>

theorem message_relay:
  "(isAgreed st s \<longrightarrow>
      on_message s JOther st = (st, [])
    \<and> (trim m = [] \<longrightarrow> on_message s (JString m) st = (st, []))
    \<and> (trim m \<noteq> [] \<longrightarrow>
         (\<forall>p. partners st s = Some p \<and> p \<noteq> [] \<longrightarrow>
              on_message s (JString m) st = (st, [Emit p ''message'' (Text (trim m))]))
       \<and> (partners st s = None \<longrightarrow> on_message s (JString m) st = (st, []))))
   \<and> (isAgreed_sjs t u \<longrightarrow>
      on_message_sjs u JOther t = (t, [])
    \<and> (trim m = [] \<longrightarrow> on_message_sjs u (JString m) t = (t, []))
    \<and> (trim m \<noteq> [] \<longrightarrow>
         (\<forall>p. partners_sjs t u = Some p \<and> p \<noteq> [] \<longrightarrow>
              on_message_sjs u (JString m) t = (t, [Emit p ''message'' (Text (trim m))]))
       \<and> (partners_sjs t u = None \<longrightarrow> on_message_sjs u (JString m) t = (t, []))))"
  by (simp add: on_message_def on_message_sjs_def requireAgree_def requireAgree_sjs_def
      truthy_def emitTo_def)

theorem message_relay_witness:
  "isAgreed chatting (js ''A'') \<and> partners chatting (js ''A'') = Some (js ''B'')
   \<and> trim (js '' hi  '') = js ''hi''
   \<and> on_message (js ''A'') (JString (js '' hi  '')) chatting
        = (chatting, [Emit (js ''B'') ''message'' (Text (js ''hi''))])
   \<and> trim (js ''   '') = [] \<and> on_message (js ''A'') (JString (js ''   '')) chatting = (chatting, [])
   \<and> isAgreed_sjs chatting_sjs (js ''A'') \<and> partners_sjs chatting_sjs (js ''A'') = Some (js ''B'')
   \<and> on_message_sjs (js ''A'') (JString (js '' hi  '')) chatting_sjs
        = (chatting_sjs, [Emit (js ''B'') ''message'' (Text (js ''hi''))])
   \<and> on_message_sjs (js ''A'') (JString (js ''   '')) chatting_sjs = (chatting_sjs, [])"
proof -
  have t: "trim (js '' hi  '') = js ''hi''" "trim (js ''   '') = []" "js ''hi'' \<noteq> []"
    by (simp_all add: trim_def js_def is_ws_def)
  show ?thesis
    using message_relay[of chatting "js ''A''" "js '' hi  ''" chatting_sjs "js ''A''"]
      message_relay[of chatting "js ''A''" "js ''   ''" chatting_sjs "js ''A''"]
    by (simp add: t chatting_fields chatting_sjs_fields isAgreed_def names)
qed

text \<open>
  C9. For a consented connection, next tears down the pairing and the queue membership as
  stop does and then re-requests matching, so that afterwards the id is queued or paired
  again on the server. The listener of server.js tears down and then emits "searching" and
  "find" to the caller, which does not run the server's find: after A's next, A is neither
  queued nor paired.
\<close>

theorem next_leaves_unqueued:
  "run_sjs chatting_sjs_run init_sjs = Inr chatting_sjs
   \<and> isAgreed_sjs chatting_sjs (js ''A'') \<and> partners_sjs chatting_sjs (js ''A'') = Some (js ''B'')
   \<and> snd (on_next_sjs (js ''A'') chatting_sjs)
        = [Emit (js ''B'') ''partner_left'' NoPayload, Emit (js ''A'') ''searching'' NoPayload,
           Emit (js ''A'') ''find'' NoPayload]
   \<and> partners_sjs (fst (on_next_sjs (js ''A'') chatting_sjs)) (js ''A'') = None
   \<and> js ''A'' \<notin> set (queue_sjs (fst (on_next_sjs (js ''A'') chatting_sjs)))"
  by (simp add: chatting_sjs_reached chatting_sjs_fields on_next_sjs_def teardown_sjs_def
      requireAgree_sjs_def truthy_def unpair_def names)

text \<open>
  C10. A pending offer outlives the pairing it was made in. After a stop by anyone, or the
  disconnect of anyone but the receiver, the offer keyed by the receiver is still stored and
  a consented receiver can accept it, receiving the stored payload, or decline it. The only
  inputs that remove a stored offer are the receiver's own disconnect, accept and decline.
  (part\_000 has no listener for next: such an event changes nothing.)
\<close>

theorem pending_offer_outlives_pairing:
  "((i = Client s Stop \<or> (i = Disconnected s \<and> s \<noteq> r)) \<and> isAgreed st r \<longrightarrow>
      (let st' = fst (step (now, i) st) in
         isAgreed st' r
       \<and> pendingPhotos st' r = pendingPhotos st r \<and> pendingVideos st' r = pendingVideos st r
       \<and> (\<forall>req. pendingPhotos st r = Some req \<longrightarrow>
              on_photo_accept r st' =
                (st'\<lparr>pendingPhotos := (pendingPhotos st')(r := None)\<rparr>,
                 [Emit r ''photo_deliver'' (DataUrlObj (dataUrl req))]
                   @ emitTo (fromSocketId req) ''message'' (Text photo_accepted))
            \<and> on_photo_decline r st' =
                (st'\<lparr>pendingPhotos := (pendingPhotos st')(r := None)\<rparr>,
                 emitTo (fromSocketId req) ''message'' (Text photo_declined)))
       \<and> (\<forall>req. pendingVideos st r = Some req \<longrightarrow>
              on_video_accept r st' =
                (st'\<lparr>pendingVideos := (pendingVideos st')(r := None)\<rparr>,
                 [Emit r ''video_deliver'' (DataUrlObj (dataUrl req))]
                   @ emitTo (fromSocketId req) ''message'' (Text video_accepted))
            \<and> on_video_decline r st' =
                (st'\<lparr>pendingVideos := (pendingVideos st')(r := None)\<rparr>,
                 emitTo (fromSocketId req) ''message'' (Text video_declined)))))
   \<and> (pendingPhotos st r \<noteq> None \<and> pendingPhotos (fst (step (now, j) st)) r = None \<longrightarrow>
        j = Disconnected r \<or> j = Client r PhotoAccept \<or> j = Client r PhotoDecline)
   \<and> (pendingVideos st r \<noteq> None \<and> pendingVideos (fst (step (now, j) st)) r = None \<longrightarrow>
        j = Disconnected r \<or> j = Client r VideoAccept \<or> j = Client r VideoDecline)"
proof (intro conjI impI)
  assume h: "(i = Client s Stop \<or> (i = Disconnected s \<and> s \<noteq> r)) \<and> isAgreed st r"
  let ?st = "fst (step (now, i) st)"
  from h ending_keeps[of i s r now st]
  have k: "pendingPhotos ?st r = pendingPhotos st r" "pendingVideos ?st r = pendingVideos st r"
    "sockets ?st r = sockets st r" by blast+
  with h have a: "isAgreed ?st r" by (simp add: isAgreed_def)
  from k accept_delivers[OF a] a
  show "let st' = fst (step (now, i) st) in
         isAgreed st' r
       \<and> pendingPhotos st' r = pendingPhotos st r \<and> pendingVideos st' r = pendingVideos st r
       \<and> (\<forall>req. pendingPhotos st r = Some req \<longrightarrow>
              on_photo_accept r st' =
                (st'\<lparr>pendingPhotos := (pendingPhotos st')(r := None)\<rparr>,
                 [Emit r ''photo_deliver'' (DataUrlObj (dataUrl req))]
                   @ emitTo (fromSocketId req) ''message'' (Text photo_accepted))
            \<and> on_photo_decline r st' =
                (st'\<lparr>pendingPhotos := (pendingPhotos st')(r := None)\<rparr>,
                 emitTo (fromSocketId req) ''message'' (Text photo_declined)))
       \<and> (\<forall>req. pendingVideos st r = Some req \<longrightarrow>
              on_video_accept r st' =
                (st'\<lparr>pendingVideos := (pendingVideos st')(r := None)\<rparr>,
                 [Emit r ''video_deliver'' (DataUrlObj (dataUrl req))]
                   @ emitTo (fromSocketId req) ''message'' (Text video_accepted))
            \<and> on_video_decline r st' =
                (st'\<lparr>pendingVideos := (pendingVideos st')(r := None)\<rparr>,
                 emitTo (fromSocketId req) ''message'' (Text video_declined)))"
    unfolding Let_def by metis
next
  assume "pendingPhotos st r \<noteq> None \<and> pendingPhotos (fst (step (now, j) st)) r = None"
  then show "j = Disconnected r \<or> j = Client r PhotoAccept \<or> j = Client r PhotoDecline"
    using step_keeps_photo[of st r now j] by blast
next
  assume "pendingVideos st r \<noteq> None \<and> pendingVideos (fst (step (now, j) st)) r = None"
  then show "j = Disconnected r \<or> j = Client r VideoAccept \<or> j = Client r VideoDecline"
    using step_keeps_video[of st r now j] by blast
qed

theorem pending_offer_outlives_pairing_witness:
  "isAgreed offered (js ''B'') \<and> js ''A'' \<noteq> js ''B''
   \<and> pendingPhotos offered (js ''B'') = Some \<lparr>fromSocketId = js ''A'', dataUrl = png\<rparr>
   \<and> partners (fst (step (0, Disconnected (js ''A'')) offered)) (js ''B'') = None
   \<and> sockets (fst (step (0, Disconnected (js ''A'')) offered)) (js ''A'') = None
   \<and> snd (on_photo_accept (js ''B'') (fst (step (0, Disconnected (js ''A'')) offered)))
        = [Emit (js ''B'') ''photo_deliver'' (DataUrlObj png),
           Emit (js ''A'') ''message'' (Text photo_accepted)]
   \<and> pendingPhotos (fst (step (0, Client (js ''B'') PhotoAccept) offered)) (js ''B'') = None"
  using pending_offer_outlives_pairing[of "Disconnected (js ''A'')" "js ''A''" "js ''B''" offered 0
      "Client (js ''B'') PhotoAccept"]
  by (simp add: offered_fields offered_after_A_left isAgreed_def names Let_def emitTo_def del: step.simps)

end
